theory Spec2Isabelle
  imports Main
begin

section \<open>Python values, exceptions and text\<close>

text \<open>
  This theory embeds \<^verbatim>\<open>airflow/models/variable.py\<close>: the lazily resolved Fernet
  provider (\<^verbatim>\<open>get_fernet\<close>, \<^verbatim>\<open>NullFernet\<close>), the accessors of a \<^verbatim>\<open>Variable\<close> row
  (\<^verbatim>\<open>get_val\<close>, \<^verbatim>\<open>set_val\<close>) and the class methods \<^verbatim>\<open>Variable.get\<close>,
  \<^verbatim>\<open>Variable.set\<close> and \<^verbatim>\<open>Variable.setdefault\<close>. The maintenance method
  \<^verbatim>\<open>rotate_fernet_key\<close> and \<^verbatim>\<open>__repr__\<close> are left out.

  A Python \<^verbatim>\<open>str\<close> is the list of its code points, a \<^verbatim>\<open>bytes\<close> object the list of its
  bytes (numbers below 256; the encoder produces no others and the decoder rejects them).
\<close>

type_synonym str = "nat list"
type_synonym bytes = "nat list"

text \<open>
  The exceptions that can travel through the module. \<open>AirflowException e\<close> is the one
  raised by \<^verbatim>\<open>get_fernet\<close>, whose message quotes the cause \<open>e\<close>; \<open>KeyError k\<close> is
  \<^verbatim>\<open>KeyError('Variable {} does not exist'.format(k))\<close>; \<open>OtherError n\<close> stands for any
  other subclass of \<^verbatim>\<open>Exception\<close> raised by a collaborator.
\<close>

datatype exc =
    ValueError string
  | TypeError
  | UnicodeEncodeError
  | UnicodeDecodeError
  | JSONDecodeError
  | KeyError str
  | AttributeError string
  | InvalidToken
  | AirflowException exc
  | OtherError nat

text \<open>
  \<^verbatim>\<open>except (ValueError, TypeError)\<close>: the Unicode errors and the JSON decoding error are
  subclasses of \<^verbatim>\<open>ValueError\<close>.
\<close>

fun is_ValueError_or_TypeError :: "exc \<Rightarrow> bool" where
  "is_ValueError_or_TypeError (ValueError m) = True"
| "is_ValueError_or_TypeError TypeError = True"
| "is_ValueError_or_TypeError UnicodeEncodeError = True"
| "is_ValueError_or_TypeError UnicodeDecodeError = True"
| "is_ValueError_or_TypeError JSONDecodeError = True"
| "is_ValueError_or_TypeError e = False"

text \<open>
  Python objects: \<open>PyObject n\<close> is a bare \<^verbatim>\<open>object()\<close> instance with identity \<open>n\<close>,
  \<open>PyOther x\<close> any value that is not \<^verbatim>\<open>None\<close>, a \<^verbatim>\<open>str\<close> or a bare object (numbers,
  lists, dicts, ...). What \<^verbatim>\<open>json.loads\<close> returns is never a bare object, hence the
  separate type of its results.
\<close>

datatype 'o pyval = PyNone | PyStr str | PyObject nat | PyOther 'o

datatype 'o jsonval = JsonNone | JsonStr str | JsonOther 'o

fun of_json :: "'o jsonval \<Rightarrow> 'o pyval" where
  "of_json JsonNone = PyNone"
| "of_json (JsonStr t) = PyStr t"
| "of_json (JsonOther x) = PyOther x"

subsection \<open>\<^verbatim>\<open>bytes(s, 'utf-8')\<close> and \<^verbatim>\<open>b.decode()\<close>\<close>

text \<open>
  The strict UTF-8 codec of Python 3: lone surrogates cannot be encoded; overlong forms,
  surrogates, truncated sequences and code points above U+10FFFF cannot be decoded.
\<close>

definition utf8_encode_char :: "nat \<Rightarrow> exc + bytes" where
  "utf8_encode_char c =
     (if c < 0x80 then Inr [c]
      else if c < 0x800 then Inr [0xC0 + c div 64, 0x80 + c mod 64]
      else if 0xD800 \<le> c \<and> c \<le> 0xDFFF then Inl UnicodeEncodeError
      else if c < 0x10000 then
        Inr [0xE0 + c div 4096, 0x80 + (c div 64) mod 64, 0x80 + c mod 64]
      else if c < 0x110000 then
        Inr [0xF0 + c div 262144, 0x80 + (c div 4096) mod 64,
             0x80 + (c div 64) mod 64, 0x80 + c mod 64]
      else Inl UnicodeEncodeError)"

fun utf8_encode :: "str \<Rightarrow> exc + bytes" where
  "utf8_encode [] = Inr []"
| "utf8_encode (c # cs) =
     (case utf8_encode_char c of
        Inl e \<Rightarrow> Inl e
      | Inr bs \<Rightarrow> (case utf8_encode cs of Inl e \<Rightarrow> Inl e | Inr r \<Rightarrow> Inr (bs @ r)))"

definition continuation :: "nat \<Rightarrow> bool" where
  "continuation b \<longleftrightarrow> 0x80 \<le> b \<and> b \<le> 0xBF"

definition decoded :: "nat \<Rightarrow> exc + str \<Rightarrow> exc + str" where
  "decoded c r = (case r of Inl e \<Rightarrow> Inl e | Inr cs \<Rightarrow> Inr (c # cs))"

fun utf8_decode :: "bytes \<Rightarrow> exc + str" where
  "utf8_decode [] = Inr []"
| "utf8_decode (b0 # bs) =
     (if b0 < 0x80 then decoded b0 (utf8_decode bs)
      else if 0xC2 \<le> b0 \<and> b0 \<le> 0xDF then
        (case bs of
           b1 # r \<Rightarrow>
             if continuation b1
             then decoded ((b0 - 0xC0) * 64 + (b1 - 0x80)) (utf8_decode r)
             else Inl UnicodeDecodeError
         | _ \<Rightarrow> Inl UnicodeDecodeError)
      else if 0xE0 \<le> b0 \<and> b0 \<le> 0xEF then
        (case bs of
           b1 # b2 # r \<Rightarrow>
             if (if b0 = 0xE0 then 0xA0 else 0x80) \<le> b1
                \<and> b1 \<le> (if b0 = 0xED then 0x9F else 0xBF) \<and> continuation b2
             then decoded ((b0 - 0xE0) * 4096 + (b1 - 0x80) * 64 + (b2 - 0x80))
                    (utf8_decode r)
             else Inl UnicodeDecodeError
         | _ \<Rightarrow> Inl UnicodeDecodeError)
      else if 0xF0 \<le> b0 \<and> b0 \<le> 0xF4 then
        (case bs of
           b1 # b2 # b3 # r \<Rightarrow>
             if (if b0 = 0xF0 then 0x90 else 0x80) \<le> b1
                \<and> b1 \<le> (if b0 = 0xF4 then 0x8F else 0xBF)
                \<and> continuation b2 \<and> continuation b3
             then decoded ((b0 - 0xF0) * 262144 + (b1 - 0x80) * 4096
                           + (b2 - 0x80) * 64 + (b3 - 0x80))
                    (utf8_decode r)
             else Inl UnicodeDecodeError
         | _ \<Rightarrow> Inl UnicodeDecodeError)
      else Inl UnicodeDecodeError)"

text \<open>\<^verbatim>\<open>s.split(',')\<close>: the pieces between commas (code point 44), never an empty list.\<close>

fun split_comma :: "str \<Rightarrow> str list" where
  "split_comma [] = [[]]"
| "split_comma (c # cs) =
     (if c = 44 then [] # split_comma cs
      else (case split_comma cs of p # ps \<Rightarrow> (c # p) # ps | [] \<Rightarrow> [[c]]))"

section \<open>Collaborators and module state\<close>

text \<open>
  What the module imports is a parameter of the model: whether
  \<^verbatim>\<open>cryptography.fernet\<close> can be imported; what
  \<^verbatim>\<open>configuration.conf.get('core', 'FERNET_KEY')\<close> returns (a string, \<^verbatim>\<open>None\<close>, or an
  exception); the \<^verbatim>\<open>Fernet\<close> constructor on the bytes of one key part; the
  \<^verbatim>\<open>encrypt\<close> and \<^verbatim>\<open>decrypt\<close> methods of a \<^verbatim>\<open>MultiFernet\<close> over a list of keys
  (\<^verbatim>\<open>encrypt\<close> draws the time and an initialisation vector, indexed here by a counter);
  \<^verbatim>\<open>str(value)\<close> on a value that is not already a \<^verbatim>\<open>str\<close>; \<^verbatim>\<open>json.dumps\<close> and
  \<^verbatim>\<open>json.loads\<close>.
\<close>

record ('k, 'o) env =
  cryptography_installed :: bool
  conf_get_FERNET_KEY :: "exc + str option"
  Fernet :: "bytes \<Rightarrow> exc + 'k"
  MultiFernet_encrypt :: "'k list \<Rightarrow> nat \<Rightarrow> bytes \<Rightarrow> exc + bytes"
  MultiFernet_decrypt :: "'k list \<Rightarrow> bytes \<Rightarrow> exc + bytes"
  builtin_str :: "'o pyval \<Rightarrow> exc + str"
  json_dumps :: "'o pyval \<Rightarrow> exc + str"
  json_loads :: "str \<Rightarrow> exc + 'o jsonval"

text \<open>
  The provider object held in the module global \<^verbatim>\<open>_fernet\<close>: an instance of the class
  \<^verbatim>\<open>NullFernet\<close> of this module, or a \<^verbatim>\<open>MultiFernet\<close> over the keys built from the
  configuration.
\<close>

datatype 'k fernet = NullFernet | MultiFernet "'k list"

text \<open>
  \<^verbatim>\<open>is_encrypted\<close> is a class attribute of \<^verbatim>\<open>NullFernet\<close> (\<^verbatim>\<open>False\<close>) and is set to
  \<^verbatim>\<open>True\<close> on the \<^verbatim>\<open>MultiFernet\<close> instance right after \<^verbatim>\<open>get_fernet\<close> builds it.
\<close>

fun fernet_is_encrypted :: "'k fernet \<Rightarrow> bool" where
  "fernet_is_encrypted NullFernet = False"
| "fernet_is_encrypted (MultiFernet ks) = True"

text \<open>The methods the class \<^verbatim>\<open>NullFernet\<close> defines, under the names the source gives them.\<close>

definition NullFernet_methods :: "(string \<times> (bytes \<Rightarrow> bytes)) list" where
  "NullFernet_methods = [(''decrpyt'', \<lambda>b. b), (''encrypt'', \<lambda>b. b)]"

text \<open>
  Attribute lookup of a method on the provider. On a \<^verbatim>\<open>MultiFernet\<close> the two methods
  that reads and writes use are given by the library; a name the class does not define
  raises \<^verbatim>\<open>AttributeError\<close>.
\<close>

definition fernet_getattr ::
  "('k, 'o) env \<Rightarrow> 'k fernet \<Rightarrow> string \<Rightarrow> exc + (nat \<Rightarrow> bytes \<Rightarrow> exc + bytes)" where
  "fernet_getattr E f name =
     (case f of
        NullFernet \<Rightarrow>
          (case map_of NullFernet_methods name of
             None \<Rightarrow> Inl (AttributeError name)
           | Some m \<Rightarrow> Inr (\<lambda>n b. Inr (m b)))
      | MultiFernet ks \<Rightarrow>
          (if name = ''encrypt'' then Inr (MultiFernet_encrypt E ks)
           else if name = ''decrypt'' then Inr (\<lambda>n. MultiFernet_decrypt E ks)
           else Inl (AttributeError name)))"

text \<open>
  The call \<^verbatim>\<open>fernet.name(arg)\<close> in Python's order: the attribute is looked up, then the
  argument expression is evaluated, then the method runs.
\<close>

definition fernet_call ::
  "('k, 'o) env \<Rightarrow> 'k fernet \<Rightarrow> string \<Rightarrow> nat \<Rightarrow> exc + bytes \<Rightarrow> exc + bytes" where
  "fernet_call E f name n arg =
     (case fernet_getattr E f name of
        Inl e \<Rightarrow> Inl e
      | Inr m \<Rightarrow> (case arg of Inl e \<Rightarrow> Inl e | Inr b \<Rightarrow> m n b))"

text \<open>
  The module global \<^verbatim>\<open>InvalidFernetToken\<close>: the placeholder class defined by this module
  (never raised by anything), until \<^verbatim>\<open>get_fernet\<close> rebinds it to the library's
  \<^verbatim>\<open>InvalidToken\<close>.
\<close>

datatype token_class = Placeholder_InvalidFernetToken | Library_InvalidToken

fun caught_as :: "token_class \<Rightarrow> exc \<Rightarrow> bool" where
  "caught_as Library_InvalidToken InvalidToken = True"
| "caught_as c e = False"

datatype log_entry = Warning string | Error string str

text \<open>A row of the table \<^verbatim>\<open>variable\<close>; \<open>raw_val\<close> is the column \<^verbatim>\<open>_val\<close>.\<close>

record variable =
  row_id :: "nat option"
  key :: str
  raw_val :: "str option"
  is_encrypted :: "bool option"

text \<open>
  The state the module reads and writes: its globals \<^verbatim>\<open>_fernet\<close> and
  \<^verbatim>\<open>InvalidFernetToken\<close>, the log, the counter that indexes the draws of
  \<^verbatim>\<open>encrypt\<close>, the identity of the next \<^verbatim>\<open>object()\<close>, and the rows of the table as
  the session sees them, with the next primary key.
\<close>

record 'k state =
  g_fernet :: "'k fernet option"
  g_InvalidFernetToken :: token_class
  logged :: "log_entry list"
  entropy :: nat
  next_object :: nat
  rows :: "variable list"
  next_id :: nat

section \<open>The provider: \<^verbatim>\<open>get_fernet\<close>\<close>

text \<open>
  The list comprehension \<^verbatim>\<open>[Fernet(part.encode('utf-8')) for part in ...]\<close>: the first
  part that fails ends it.
\<close>

fun make_fernets :: "('k, 'o) env \<Rightarrow> str list \<Rightarrow> exc + 'k list" where
  "make_fernets E [] = Inr []"
| "make_fernets E (fernet_part # parts) =
     (case utf8_encode fernet_part of
        Inl e \<Rightarrow> Inl e
      | Inr b \<Rightarrow>
          (case Fernet E b of
             Inl e \<Rightarrow> Inl e
           | Inr k \<Rightarrow>
               (case make_fernets E parts of Inl e \<Rightarrow> Inl e | Inr ks \<Rightarrow> Inr (k # ks))))"

text \<open>The library's \<^verbatim>\<open>MultiFernet(fernets)\<close> refuses an empty list with a \<^verbatim>\<open>ValueError\<close>.\<close>

definition MultiFernet_new :: "'k list \<Rightarrow> exc + 'k fernet" where
  "MultiFernet_new ks =
     (if ks = [] then Inl (ValueError ''MultiFernet requires at least one Fernet instance'')
      else Inr (MultiFernet ks))"

text \<open>
  The handler \<^verbatim>\<open>except (ValueError, TypeError) as ve\<close> around the second \<^verbatim>\<open>try\<close>: these
  become an \<^verbatim>\<open>AirflowException\<close>, anything else propagates as it is.
\<close>

definition could_not_create :: "exc \<Rightarrow> exc" where
  "could_not_create e = (if is_ValueError_or_TypeError e then AirflowException e else e)"

text \<open>
  The branch \<^verbatim>\<open>if not fernet_key\<close>, taken when the configured value is \<^verbatim>\<open>None\<close> or the
  empty string: a warning, and the no-op provider is cached.
\<close>

definition empty_key :: "'k state \<Rightarrow> 'k state" where
  "empty_key s =
     s\<lparr>logged := logged s
          @ [Warning ''empty cryptography key - values will not be stored encrypted.''],
       g_fernet := Some NullFernet\<rparr>"

definition get_fernet :: "('k, 'o) env \<Rightarrow> 'k state \<Rightarrow> (exc + 'k fernet) \<times> 'k state" where
  "get_fernet E s =
     (case g_fernet s of
        Some f \<Rightarrow> (Inr f, s)
      | None \<Rightarrow>
          if \<not> cryptography_installed E then
            (Inr NullFernet,
             s\<lparr>logged := logged s
                  @ [Warning ''cryptography not found - values will not be stored encrypted.''],
               g_fernet := Some NullFernet\<rparr>)
          else
            let s1 = s\<lparr>g_InvalidFernetToken := Library_InvalidToken\<rparr> in
            (case conf_get_FERNET_KEY E of
               Inl e \<Rightarrow> (Inl (could_not_create e), s1)
             | Inr None \<Rightarrow> (Inr NullFernet, empty_key s1)
             | Inr (Some fernet_key) \<Rightarrow>
                 if fernet_key = [] then (Inr NullFernet, empty_key s1)
                 else
                   (case make_fernets E (split_comma fernet_key) of
                      Inl e \<Rightarrow> (Inl (could_not_create e), s1)
                    | Inr ks \<Rightarrow>
                        (case MultiFernet_new ks of
                           Inl e \<Rightarrow> (Inl (could_not_create e), s1)
                         | Inr f \<Rightarrow> (Inr f, s1\<lparr>g_fernet := Some f\<rparr>)))))"


section \<open>The row accessors: \<^verbatim>\<open>get_val\<close> and \<^verbatim>\<open>set_val\<close>\<close>

text \<open>
  The two \<^verbatim>\<open>except\<close> clauses of \<^verbatim>\<open>get_val\<close>: the first catches what the global
  \<^verbatim>\<open>InvalidFernetToken\<close> currently names, the second every other \<^verbatim>\<open>Exception\<close>. Both
  log an error that names the key and return \<^verbatim>\<open>None\<close>.
\<close>

definition decrypt_failed ::
  "variable \<Rightarrow> exc \<Rightarrow> 'k state \<Rightarrow> (exc + str option) \<times> 'k state" where
  "decrypt_failed self e s =
     (if caught_as (g_InvalidFernetToken s) e then
        (Inr None,
         s\<lparr>logged := logged s
              @ [Error ''Can't decrypt _val for key={}, invalid token or value'' (key self)]\<rparr>)
      else
        (Inr None,
         s\<lparr>logged := logged s
              @ [Error ''Can't decrypt _val for key={}, FERNET_KEY configuration missing''
                   (key self)]\<rparr>))"

text \<open>
  \<^verbatim>\<open>if self._val and self.is_encrypted\<close>: \<^verbatim>\<open>None\<close> and the empty string are false, and so
  are \<^verbatim>\<open>None\<close> and \<^verbatim>\<open>False\<close> in the flag. The whole decryption, the call of
  \<^verbatim>\<open>get_fernet\<close> included, is inside the \<^verbatim>\<open>try\<close>.
\<close>

definition get_val :: "('k, 'o) env \<Rightarrow> variable \<Rightarrow> 'k state \<Rightarrow> (exc + str option) \<times> 'k state" where
  "get_val E self s =
     (case raw_val self of
        None \<Rightarrow> (Inr None, s)
      | Some val \<Rightarrow>
          if val \<noteq> [] \<and> is_encrypted self = Some True then
            (case get_fernet E s of
               (Inl e, s1) \<Rightarrow> decrypt_failed self e s1
             | (Inr fernet, s1) \<Rightarrow>
                 (case fernet_call E fernet ''decrypt'' (entropy s1) (utf8_encode val) of
                    Inl e \<Rightarrow> decrypt_failed self e s1
                  | Inr plain \<Rightarrow>
                      (case utf8_decode plain of
                         Inl e \<Rightarrow> decrypt_failed self e s1
                       | Inr v \<Rightarrow> (Inr (Some v), s1))))
          else (Inr (Some val), s))"

text \<open>
  \<^verbatim>\<open>set_val\<close> does nothing on an empty value. Otherwise nothing is assigned before the
  whole right-hand side has been computed, and each call of \<^verbatim>\<open>encrypt\<close> uses up one draw.
\<close>

definition set_val ::
  "('k, 'o) env \<Rightarrow> variable \<Rightarrow> str \<Rightarrow> 'k state \<Rightarrow> (exc + variable) \<times> 'k state" where
  "set_val E self val s =
     (if val \<noteq> [] then
        (case get_fernet E s of
           (Inl e, s1) \<Rightarrow> (Inl e, s1)
         | (Inr fernet, s1) \<Rightarrow>
             (case fernet_call E fernet ''encrypt'' (entropy s1) (utf8_encode val) of
                Inl e \<Rightarrow> (Inl e, s1\<lparr>entropy := Suc (entropy s1)\<rparr>)
              | Inr token \<Rightarrow>
                  (case utf8_decode token of
                     Inl e \<Rightarrow> (Inl e, s1\<lparr>entropy := Suc (entropy s1)\<rparr>)
                   | Inr t \<Rightarrow>
                       (Inr (self\<lparr>raw_val := Some t,
                                   is_encrypted := Some (fernet_is_encrypted fernet)\<rparr>),
                        s1\<lparr>entropy := Suc (entropy s1)\<rparr>))))
      else (Inr self, s))"

text \<open>
  The constructor call \<^verbatim>\<open>Variable(key=key, val=stored_value)\<close>: a new object with no
  column set yet, whose keyword arguments are assigned in turn; \<^verbatim>\<open>val\<close> is the synonym
  whose setter is \<^verbatim>\<open>set_val\<close>.
\<close>

definition Variable_init ::
  "('k, 'o) env \<Rightarrow> str \<Rightarrow> str \<Rightarrow> 'k state \<Rightarrow> (exc + variable) \<times> 'k state" where
  "Variable_init E k val s =
     set_val E \<lparr>row_id = None, key = k, raw_val = None, is_encrypted = None\<rparr> val s"

section \<open>The session\<close>

text \<open>
  The three things the module asks of the session, on the rows of the table:
  \<^verbatim>\<open>query(cls).filter(cls.key == key).first()\<close>,
  \<^verbatim>\<open>query(cls).filter(cls.key == key).delete()\<close>, and \<^verbatim>\<open>add\<close> followed by
  \<^verbatim>\<open>flush\<close>, which inserts the row: the primary key is assigned and the column default
  \<^verbatim>\<open>False\<close> fills an \<^verbatim>\<open>is_encrypted\<close> that was never set. The state is the session a
  method body runs in; the decorator \<^verbatim>\<open>provide_session\<close>, which opens it when the caller
  passes none and commits or rolls back around the call, belongs to another module.
\<close>

definition query_first :: "str \<Rightarrow> 'k state \<Rightarrow> variable option" where
  "query_first k s = find (\<lambda>r. key r = k) (rows s)"

definition query_delete :: "str \<Rightarrow> 'k state \<Rightarrow> 'k state" where
  "query_delete k s = s\<lparr>rows := filter (\<lambda>r. key r \<noteq> k) (rows s)\<rparr>"

definition inserted :: "nat \<Rightarrow> variable \<Rightarrow> variable" where
  "inserted n obj =
     obj\<lparr>row_id := Some n,
         is_encrypted := (case is_encrypted obj of None \<Rightarrow> Some False | Some b \<Rightarrow> Some b)\<rparr>"

definition add_and_flush :: "variable \<Rightarrow> 'k state \<Rightarrow> 'k state" where
  "add_and_flush obj s =
     s\<lparr>rows := rows s @ [inserted (next_id s) obj], next_id := Suc (next_id s)\<rparr>"

section \<open>\<^verbatim>\<open>Variable.get\<close>, \<^verbatim>\<open>Variable.set\<close>, \<^verbatim>\<open>Variable.setdefault\<close>\<close>

text \<open>\<^verbatim>\<open>str(value)\<close>: a \<^verbatim>\<open>str\<close> is returned as it is.\<close>

definition py_str :: "('k, 'o) env \<Rightarrow> 'o pyval \<Rightarrow> exc + str" where
  "py_str E v = (case v of PyStr t \<Rightarrow> Inr t | _ \<Rightarrow> builtin_str E v)"

text \<open>\<^verbatim>\<open>json.loads(obj.val)\<close>: on \<^verbatim>\<open>None\<close> the library raises a \<^verbatim>\<open>TypeError\<close>.\<close>

definition json_loads_val :: "('k, 'o) env \<Rightarrow> str option \<Rightarrow> exc + 'o pyval" where
  "json_loads_val E v =
     (case v of
        None \<Rightarrow> Inl TypeError
      | Some t \<Rightarrow> (case json_loads E t of Inl e \<Rightarrow> Inl e | Inr j \<Rightarrow> Inr (of_json j)))"

definition of_val :: "str option \<Rightarrow> 'o pyval" where
  "of_val v = (case v of None \<Rightarrow> PyNone | Some t \<Rightarrow> PyStr t)"

definition Variable_get ::
  "('k, 'o) env \<Rightarrow> str \<Rightarrow> 'o pyval \<Rightarrow> bool \<Rightarrow> 'k state \<Rightarrow> (exc + 'o pyval) \<times> 'k state" where
  "Variable_get E k default_var deserialize_json s =
     (case query_first k s of
        None \<Rightarrow>
          if default_var \<noteq> PyNone then (Inr default_var, s)
          else (Inl (KeyError k), s)
      | Some obj \<Rightarrow>
          (case get_val E obj s of
             (Inl e, s1) \<Rightarrow> (Inl e, s1)
           | (Inr v, s1) \<Rightarrow>
               if deserialize_json then (json_loads_val E v, s1)
               else (Inr (of_val v), s1)))"

definition Variable_set ::
  "('k, 'o) env \<Rightarrow> str \<Rightarrow> 'o pyval \<Rightarrow> bool \<Rightarrow> 'k state \<Rightarrow> (exc + unit) \<times> 'k state" where
  "Variable_set E k val serialize_json s =
     (case (if serialize_json then json_dumps E val else py_str E val) of
        Inl e \<Rightarrow> (Inl e, s)
      | Inr stored_value \<Rightarrow>
          (case Variable_init E k stored_value (query_delete k s) of
             (Inl e, s2) \<Rightarrow> (Inl e, s2)
           | (Inr obj, s2) \<Rightarrow> (Inr (), add_and_flush obj s2)))"

text \<open>
  \<^verbatim>\<open>default_sentinel = object()\<close> is a new object; \<^verbatim>\<open>obj is default_sentinel\<close> compares
  identities.
\<close>

definition Variable_setdefault ::
  "('k, 'o) env \<Rightarrow> str \<Rightarrow> 'o pyval \<Rightarrow> bool \<Rightarrow> 'k state \<Rightarrow> (exc + 'o pyval) \<times> 'k state" where
  "Variable_setdefault E k default_val deserialize_json s =
     (let default_sentinel = PyObject (next_object s);
          s0 = s\<lparr>next_object := Suc (next_object s)\<rparr>
      in case Variable_get E k default_sentinel deserialize_json s0 of
           (Inl e, s1) \<Rightarrow> (Inl e, s1)
         | (Inr obj, s1) \<Rightarrow>
             if obj = default_sentinel then
               (if default_val \<noteq> PyNone then
                  (case Variable_set E k default_val deserialize_json s1 of
                     (Inl e, s2) \<Rightarrow> (Inl e, s2)
                   | (Inr u, s2) \<Rightarrow> (Inr default_val, s2))
                else (Inl (ValueError ''Default Value must be set''), s1))
             else (Inr obj, s1))"

subsection \<open>The cipher library\<close>

text \<open>
  What the theorems on a real cipher assume of the library: a token is longer than its
  plaintext (it carries a version byte, a timestamp, an initialisation vector and a MAC),
  and the keys that produced it decrypt it to that plaintext.
\<close>

definition fernet_law :: "('k, 'o) env \<Rightarrow> bool" where
  "fernet_law E \<longleftrightarrow>
     (\<forall>ks n b t. MultiFernet_encrypt E ks n b = Inr t \<longrightarrow>
        length b < length t \<and> MultiFernet_decrypt E ks t = Inr b)"

section \<open>A small concrete environment\<close>

text \<open>
  An instance of the collaborators, on which the theorems below are run. The cipher is a
  toy: a key part is accepted when it has four bytes, and a token is the plaintext behind
  a two-byte header (the second byte varies with the draw). The JSON functions are those
  of Python on a fragment of its values.
\<close>

definition example_Fernet :: "bytes \<Rightarrow> exc + bytes" where
  "example_Fernet b =
     (if length b = 4 then Inr b
      else Inl (ValueError ''Fernet key must be 32 url-safe base64-encoded bytes.''))"

definition example_encrypt :: "bytes list \<Rightarrow> nat \<Rightarrow> bytes \<Rightarrow> exc + bytes" where
  "example_encrypt ks n b = Inr (103 # (65 + n mod 26) # b)"

definition example_decrypt :: "bytes list \<Rightarrow> bytes \<Rightarrow> exc + bytes" where
  "example_decrypt ks t =
     (case t of
        h # d # b \<Rightarrow> if h = 103 then Inr b else Inl InvalidToken
      | _ \<Rightarrow> Inl InvalidToken)"

subsection \<open>A fragment of Python's \<^verbatim>\<open>json\<close>\<close>

text \<open>
  The values of the fragment: \<^verbatim>\<open>None\<close>, booleans, integers, strings, lists, and dicts as the
  list of their items in order (a key may be any hashable value of the fragment).
\<close>

datatype pydata =
    DNone | DBool bool | DInt int | DStr str
  | DList "pydata list" | DDict "(pydata \<times> pydata) list"

text \<open>The code points of an ASCII literal, and \<^verbatim>\<open>str(n)\<close> for an integer.\<close>

definition ascii :: "string \<Rightarrow> str" where
  "ascii t = map of_char t"

function digits :: "nat \<Rightarrow> str" where
  "digits n = (if n < 10 then [48 + n] else digits (n div 10) @ [48 + n mod 10])"
  by pat_completeness auto
termination
  by (relation "measure (\<lambda>n. n)") auto

definition int_text :: "int \<Rightarrow> str" where
  "int_text i = (if i < 0 then 45 # digits (nat (- i)) else digits (nat i))"

text \<open>
  \<^verbatim>\<open>json.dumps\<close> with its default separators. A string is written between quotes; this
  instance knows the printable ASCII characters that need no escape and refuses a string
  with any other. The keys of a dict are written as strings: a \<^verbatim>\<open>str\<close> as it is, an
  integer as its decimal text, \<^verbatim>\<open>True\<close>, \<^verbatim>\<open>False\<close> and \<^verbatim>\<open>None\<close> as \<^verbatim>\<open>true\<close>,
  \<^verbatim>\<open>false\<close> and \<^verbatim>\<open>null\<close>; any other key is a \<^verbatim>\<open>TypeError\<close>.
\<close>

definition plain_char :: "nat \<Rightarrow> bool" where
  "plain_char c \<longleftrightarrow> 32 \<le> c \<and> c \<le> 126 \<and> c \<noteq> 34 \<and> c \<noteq> 92"

definition quoted :: "str \<Rightarrow> exc + str" where
  "quoted t = (if list_all plain_char t then Inr (34 # t @ [34]) else Inl (OtherError 0))"

fun key_text :: "pydata \<Rightarrow> exc + str" where
  "key_text (DStr t) = quoted t"
| "key_text (DInt i) = quoted (int_text i)"
| "key_text (DBool b) = quoted (ascii (if b then ''true'' else ''false''))"
| "key_text DNone = quoted (ascii ''null'')"
| "key_text d = Inl TypeError"

definition joined :: "exc + str \<Rightarrow> string \<Rightarrow> exc + str \<Rightarrow> exc + str" where
  "joined a sep b =
     (case a of
        Inl e \<Rightarrow> Inl e
      | Inr x \<Rightarrow> (case b of Inl e \<Rightarrow> Inl e | Inr y \<Rightarrow> Inr (x @ ascii sep @ y)))"

fun dumps :: "pydata \<Rightarrow> exc + str"
  and dumps_items :: "pydata list \<Rightarrow> exc + str"
  and dumps_members :: "(pydata \<times> pydata) list \<Rightarrow> exc + str" where
  "dumps DNone = Inr (ascii ''null'')"
| "dumps (DBool b) = Inr (ascii (if b then ''true'' else ''false''))"
| "dumps (DInt i) = Inr (int_text i)"
| "dumps (DStr t) = quoted t"
| "dumps (DList xs) = joined (Inr [91]) [] (joined (dumps_items xs) [] (Inr [93]))"
| "dumps (DDict ms) = joined (Inr [123]) [] (joined (dumps_members ms) [] (Inr [125]))"
| "dumps_items [] = Inr []"
| "dumps_items [x] = dumps x"
| "dumps_items (x # y # xs) = joined (dumps x) '', '' (dumps_items (y # xs))"
| "dumps_members [] = Inr []"
| "dumps_members [(k, v)] = joined (key_text k) '': '' (dumps v)"
| "dumps_members ((k, v) # m # ms) =
     joined (joined (key_text k) '': '' (dumps v)) '', '' (dumps_members (m # ms))"


text \<open>
  \<^verbatim>\<open>json.loads\<close>, by recursive descent. The first argument of the three parsers is
  fuel, of which every nested call uses up one element; the text itself is enough of it.
  Every key of a parsed object is a string.
\<close>

definition skip_ws :: "str \<Rightarrow> str" where
  "skip_ws t = dropWhile (\<lambda>c. c = 32 \<or> c = 9 \<or> c = 10 \<or> c = 13) t"

definition starts_with :: "str \<Rightarrow> str \<Rightarrow> bool" where
  "starts_with p t \<longleftrightarrow> take (length p) t = p"

definition parse_string :: "str \<Rightarrow> (str \<times> str) option" where
  "parse_string t =
     (case dropWhile plain_char t of
        [] \<Rightarrow> None
      | c # rest \<Rightarrow> if c = 34 then Some (takeWhile plain_char t, rest) else None)"

definition is_digit :: "nat \<Rightarrow> bool" where
  "is_digit c \<longleftrightarrow> 48 \<le> c \<and> c \<le> 57"

definition number_of :: "str \<Rightarrow> nat" where
  "number_of ds = foldl (\<lambda>a c. 10 * a + (c - 48)) 0 ds"

definition parse_nat :: "str \<Rightarrow> (nat \<times> str) option" where
  "parse_nat t =
     (let ds = takeWhile is_digit t
      in if ds = [] \<or> (hd ds = 48 \<and> length ds > 1) then None
         else Some (number_of ds, dropWhile is_digit t))"

definition parse_int :: "str \<Rightarrow> (pydata \<times> str) option" where
  "parse_int t =
     (case t of
        [] \<Rightarrow> None
      | c # r \<Rightarrow>
          if c = 45 then
            (case parse_nat r of None \<Rightarrow> None | Some (n, rest) \<Rightarrow> Some (DInt (- int n), rest))
          else
            (case parse_nat t of None \<Rightarrow> None | Some (n, rest) \<Rightarrow> Some (DInt (int n), rest)))"

fun parse_value :: "nat list \<Rightarrow> str \<Rightarrow> (pydata \<times> str) option"
  and parse_elems :: "nat list \<Rightarrow> str \<Rightarrow> (pydata list \<times> str) option"
  and parse_pairs :: "nat list \<Rightarrow> str \<Rightarrow> ((pydata \<times> pydata) list \<times> str) option" where
  "parse_value [] t = None"
| "parse_value (f # fuel) t =
     (let u = skip_ws t
      in if starts_with (ascii ''null'') u then Some (DNone, drop 4 u)
         else if starts_with (ascii ''true'') u then Some (DBool True, drop 4 u)
         else if starts_with (ascii ''false'') u then Some (DBool False, drop 5 u)
         else
           (case u of
              [] \<Rightarrow> None
            | c # r \<Rightarrow>
                if c = 34 then
                  (case parse_string r of
                     None \<Rightarrow> None
                   | Some (v, rest) \<Rightarrow> Some (DStr v, rest))
                else if c = 91 then
                  (if starts_with [93] (skip_ws r) then Some (DList [], drop 1 (skip_ws r))
                   else (case parse_elems fuel r of
                           None \<Rightarrow> None
                         | Some (xs, rest) \<Rightarrow> Some (DList xs, rest)))
                else if c = 123 then
                  (if starts_with [125] (skip_ws r) then Some (DDict [], drop 1 (skip_ws r))
                   else (case parse_pairs fuel r of
                           None \<Rightarrow> None
                         | Some (ms, rest) \<Rightarrow> Some (DDict ms, rest)))
                else parse_int u))"
| "parse_elems [] t = None"
| "parse_elems (f # fuel) t =
     (case parse_value fuel t of
        None \<Rightarrow> None
      | Some (x, r1) \<Rightarrow>
          (case skip_ws r1 of
             [] \<Rightarrow> None
           | c # r2 \<Rightarrow>
               if c = 44 then
                 (case parse_elems fuel r2 of
                    None \<Rightarrow> None
                  | Some (xs, r3) \<Rightarrow> Some (x # xs, r3))
               else if c = 93 then Some ([x], r2)
               else None))"
| "parse_pairs [] t = None"
| "parse_pairs (f # fuel) t =
     (case skip_ws t of
        [] \<Rightarrow> None
      | q # r0 \<Rightarrow>
          if q \<noteq> 34 then None
          else
            (case parse_string r0 of
               None \<Rightarrow> None
             | Some (k, r1) \<Rightarrow>
                 (case skip_ws r1 of
                    [] \<Rightarrow> None
                  | c # r2 \<Rightarrow>
                      if c \<noteq> 58 then None
                      else
                        (case parse_value fuel r2 of
                           None \<Rightarrow> None
                         | Some (v, r3) \<Rightarrow>
                             (case skip_ws r3 of
                                [] \<Rightarrow> None
                              | c' # r4 \<Rightarrow>
                                  if c' = 44 then
                                    (case parse_pairs fuel r4 of
                                       None \<Rightarrow> None
                                     | Some (ms, r5) \<Rightarrow> Some ((DStr k, v) # ms, r5))
                                  else if c' = 125 then Some ([(DStr k, v)], r4)
                                  else None)))))"

text \<open>The two library functions on Python values; a bare object is not serialisable.\<close>

definition py_json_dumps :: "pydata pyval \<Rightarrow> exc + str" where
  "py_json_dumps v =
     (case v of
        PyNone \<Rightarrow> dumps DNone
      | PyStr t \<Rightarrow> dumps (DStr t)
      | PyOther d \<Rightarrow> dumps d
      | PyObject n \<Rightarrow> Inl TypeError)"

definition py_json_loads :: "str \<Rightarrow> exc + pydata jsonval" where
  "py_json_loads t =
     (case parse_value (0 # t) t of
        None \<Rightarrow> Inl JSONDecodeError
      | Some (d, rest) \<Rightarrow>
          if skip_ws rest \<noteq> [] then Inl JSONDecodeError
          else Inr (case d of DNone \<Rightarrow> JsonNone | DStr v \<Rightarrow> JsonStr v | _ \<Rightarrow> JsonOther d))"

subsection \<open>The environment\<close>

text \<open>\<^verbatim>\<open>str(value)\<close> on the values of the fragment that this instance knows.\<close>

definition py_builtin_str :: "pydata pyval \<Rightarrow> exc + str" where
  "py_builtin_str v =
     (case v of
        PyNone \<Rightarrow> Inr (ascii ''None'')
      | PyOther (DInt i) \<Rightarrow> Inr (int_text i)
      | PyOther (DBool b) \<Rightarrow> Inr (ascii (if b then ''True'' else ''False''))
      | _ \<Rightarrow> Inl (OtherError 1))"

definition example_env :: "bool \<Rightarrow> exc + str option \<Rightarrow> (bytes, pydata) env" where
  "example_env installed fernet_key =
     \<lparr>cryptography_installed = installed,
      conf_get_FERNET_KEY = fernet_key,
      Fernet = example_Fernet,
      MultiFernet_encrypt = example_encrypt,
      MultiFernet_decrypt = example_decrypt,
      builtin_str = py_builtin_str,
      json_dumps = py_json_dumps,
      json_loads = py_json_loads\<rparr>"

text \<open>A process that has not resolved its provider yet, over an empty table.\<close>

definition initial_state :: "bytes state" where
  "initial_state =
     \<lparr>g_fernet = None, g_InvalidFernetToken = Placeholder_InvalidFernetToken, logged = [],
      entropy = 0, next_object = 0, rows = [], next_id = 1\<rparr>"

section \<open>The codec round trip\<close>

text \<open>
  Decoding what was encoded gives the text back, and encoding what was decoded gives the
  bytes back: the strict decoder accepts exactly the encoder's image.
\<close>

lemma mod64_le: "(n::nat) mod 64 \<le> 63"
proof -
  have "n mod 64 < 64" by simp
  then show ?thesis by linarith
qed

lemma split64: "(n::nat) div 64 * 64 + n mod 64 = n"
  by simp

lemma split3: "c div 4096 * 4096 + (c div 64) mod 64 * 64 + c mod 64 = (c::nat)"
proof -
  have "c div 4096 = (c div 64) div 64" by (simp add: div_mult2_eq)
  moreover have "(c div 64) div 64 * 4096 = ((c div 64) div 64 * 64) * 64" by simp
  ultimately have "c div 4096 * 4096 + (c div 64) mod 64 * 64 = ((c div 64) div 64 * 64 + (c div 64) mod 64) * 64"
    by (simp only: distrib_right)
  also have "\<dots> = (c div 64) * 64" by (simp only: split64)
  finally show ?thesis by simp
qed

lemma split4: "c div 262144 * 262144 + (c div 4096) mod 64 * 4096 + (c div 64) mod 64 * 64 + c mod 64 = (c::nat)"
proof -
  have "c div 262144 = (c div 4096) div 64" by (simp add: div_mult2_eq)
  moreover have "(c div 4096) div 64 * 262144 = ((c div 4096) div 64 * 64) * 4096" by simp
  ultimately have "c div 262144 * 262144 + (c div 4096) mod 64 * 4096 = ((c div 4096) div 64 * 64 + (c div 4096) mod 64) * 4096"
    by (simp only: distrib_right)
  also have "\<dots> = (c div 4096) * 4096" by (simp only: split64)
  finally show ?thesis using split3[of c] by simp
qed

lemma mid_digit: "(c::nat) div 64 = c div 4096 * 64 + (c div 64) mod 64"
proof -
  have "c div 4096 = (c div 64) div 64" by (simp add: div_mult2_eq)
  then show ?thesis by simp
qed

lemma high_digit: "(c::nat) div 4096 = c div 262144 * 64 + (c div 4096) mod 64"
proof -
  have "c div 262144 = (c div 4096) div 64" by (simp add: div_mult2_eq)
  then show ?thesis by simp
qed

lemma three_lo: "2048 \<le> (c::nat) \<Longrightarrow> c div 4096 = 0 \<Longrightarrow> 32 \<le> (c div 64) mod 64"
proof -
  assume a: "2048 \<le> c" "c div 4096 = 0"
  have "32 \<le> c div 64" using a(1) by linarith
  with mid_digit[of c] a(2) show ?thesis by simp
qed

lemma three_hi: "(c::nat) < 55296 \<Longrightarrow> c div 4096 = 13 \<Longrightarrow> (c div 64) mod 64 \<le> 31"
proof -
  assume a: "c < 55296" "c div 4096 = 13"
  have "c div 64 \<le> 863" using a(1) by linarith
  with mid_digit[of c] a(2) show ?thesis by simp
qed

lemma three_sur: "57343 < (c::nat) \<Longrightarrow> c div 4096 \<noteq> 13"
proof -
  assume "57343 < c"
  then have "14 \<le> c div 4096" by linarith
  then show ?thesis by simp
qed

lemma four_lo: "65536 \<le> (c::nat) \<Longrightarrow> c div 262144 = 0 \<Longrightarrow> 16 \<le> (c div 4096) mod 64"
proof -
  assume a: "65536 \<le> c" "c div 262144 = 0"
  have "16 \<le> c div 4096" using a(1) by linarith
  with high_digit[of c] a(2) show ?thesis by simp
qed

lemma four_hi: "(c::nat) < 1114112 \<Longrightarrow> c div 262144 = 4 \<Longrightarrow> (c div 4096) mod 64 \<le> 15"
proof -
  assume a: "c < 1114112" "c div 262144 = 4"
  have "c div 4096 \<le> 271" using a(1) by linarith
  with high_digit[of c] a(2) show ?thesis by simp
qed


lemma dec2:
  "2 \<le> a \<Longrightarrow> a \<le> 31 \<Longrightarrow> l \<le> 63 \<Longrightarrow>
   utf8_decode ((192 + a) # (128 + l) # r) = decoded (a * 64 + l) (utf8_decode r)"
  by (simp add: continuation_def)

lemma dec3:
  "a \<le> 15 \<Longrightarrow> m \<le> 63 \<Longrightarrow> l \<le> 63 \<Longrightarrow> (a = 0 \<Longrightarrow> 32 \<le> m) \<Longrightarrow> (a = 13 \<Longrightarrow> m \<le> 31) \<Longrightarrow>
   utf8_decode ((224 + a) # (128 + m) # (128 + l) # r)
     = decoded (a * 4096 + m * 64 + l) (utf8_decode r)"
  by (simp add: continuation_def)

lemma dec4:
  "a \<le> 4 \<Longrightarrow> h \<le> 63 \<Longrightarrow> m \<le> 63 \<Longrightarrow> l \<le> 63 \<Longrightarrow> (a = 0 \<Longrightarrow> 16 \<le> h) \<Longrightarrow> (a = 4 \<Longrightarrow> h \<le> 15) \<Longrightarrow>
   utf8_decode ((240 + a) # (128 + h) # (128 + m) # (128 + l) # r)
     = decoded (a * 262144 + h * 4096 + m * 64 + l) (utf8_decode r)"
  by (simp add: continuation_def)



lemma decode_encode_char:
  assumes "utf8_encode_char c = Inr bs"
  shows "utf8_decode (bs @ r) = decoded c (utf8_decode r)"
proof -
  consider (one) "c < 0x80"
    | (two) "0x80 \<le> c" "c < 0x800"
    | (sur) "0xD800 \<le> c" "c \<le> 0xDFFF"
    | (low3) "0x800 \<le> c" "c < 0xD800"
    | (high3) "0xDFFF < c" "c < 0x10000"
    | (four) "0x10000 \<le> c" "c < 0x110000"
    | (big) "0x110000 \<le> c"
    by linarith
  then show ?thesis
  proof cases
    case one
    with assms have "bs = [c]" by (simp add: utf8_encode_char_def)
    with one show ?thesis by simp
  next
    case two
    with assms have bs: "bs = [192 + c div 64, 128 + c mod 64]"
      by (simp add: utf8_encode_char_def)
    have "2 \<le> c div 64" "c div 64 \<le> 31" using two by linarith+
    then have "utf8_decode ((192 + c div 64) # (128 + c mod 64) # r)
        = decoded (c div 64 * 64 + c mod 64) (utf8_decode r)"
      by (rule dec2) (rule mod64_le)
    then show ?thesis unfolding bs by (simp only: split64 append_Cons append_Nil)
  next
    case sur
    with assms show ?thesis by (simp add: utf8_encode_char_def)
  next
    case low3
    with assms have bs: "bs = [224 + c div 4096, 128 + (c div 64) mod 64, 128 + c mod 64]"
      by (simp add: utf8_encode_char_def)
    have a: "c div 4096 \<le> 15" using low3 by linarith
    have "utf8_decode ((224 + c div 4096) # (128 + (c div 64) mod 64) # (128 + c mod 64) # r)
        = decoded (c div 4096 * 4096 + (c div 64) mod 64 * 64 + c mod 64) (utf8_decode r)"
    proof (rule dec3[OF a mod64_le mod64_le])
      show "c div 4096 = 0 \<Longrightarrow> 32 \<le> (c div 64) mod 64" using low3(1) by (rule three_lo)
      show "c div 4096 = 13 \<Longrightarrow> (c div 64) mod 64 \<le> 31" using low3(2) by (rule three_hi)
    qed
    then show ?thesis unfolding bs by (simp only: split3 append_Cons append_Nil)
  next
    case high3
    with assms have bs: "bs = [224 + c div 4096, 128 + (c div 64) mod 64, 128 + c mod 64]"
      by (simp add: utf8_encode_char_def)
    have a: "c div 4096 \<le> 15" using high3 by linarith
    have n0: "c div 4096 \<noteq> 0" using high3 by simp
    have n13: "c div 4096 \<noteq> 13" using high3(1) by (rule three_sur)
    have "utf8_decode ((224 + c div 4096) # (128 + (c div 64) mod 64) # (128 + c mod 64) # r)
        = decoded (c div 4096 * 4096 + (c div 64) mod 64 * 64 + c mod 64) (utf8_decode r)"
    proof (rule dec3[OF a mod64_le mod64_le])
      show "c div 4096 = 0 \<Longrightarrow> 32 \<le> (c div 64) mod 64" using n0 by simp
      show "c div 4096 = 13 \<Longrightarrow> (c div 64) mod 64 \<le> 31" using n13 by simp
    qed
    then show ?thesis unfolding bs by (simp only: split3 append_Cons append_Nil)
  next
    case four
    with assms have bs: "bs = [240 + c div 262144, 128 + (c div 4096) mod 64,
             128 + (c div 64) mod 64, 128 + c mod 64]"
      by (simp add: utf8_encode_char_def)
    have a: "c div 262144 \<le> 4" using four by linarith
    have "utf8_decode ((240 + c div 262144) # (128 + (c div 4096) mod 64)
              # (128 + (c div 64) mod 64) # (128 + c mod 64) # r)
        = decoded (c div 262144 * 262144 + (c div 4096) mod 64 * 4096
                    + (c div 64) mod 64 * 64 + c mod 64) (utf8_decode r)"
    proof (rule dec4[OF a mod64_le mod64_le mod64_le])
      show "c div 262144 = 0 \<Longrightarrow> 16 \<le> (c div 4096) mod 64" using four(1) by (rule four_lo)
      show "c div 262144 = 4 \<Longrightarrow> (c div 4096) mod 64 \<le> 15" using four(2) by (rule four_hi)
    qed
    then show ?thesis unfolding bs by (simp only: split4 append_Cons append_Nil)
  next
    case big
    with assms show ?thesis by (simp add: utf8_encode_char_def)
  qed
qed

lemma utf8_decode_encode: "utf8_encode s = Inr b \<Longrightarrow> utf8_decode b = Inr s"
proof (induction s arbitrary: b)
  case Nil
  then show ?case by simp
next
  case (Cons c cs)
  from Cons.prems obtain bs r where
    e: "utf8_encode_char c = Inr bs" "utf8_encode cs = Inr r" "b = bs @ r"
    by (auto split: sum.splits)
  from Cons.IH[OF e(2)] decode_encode_char[OF e(1)] e(3)
  show ?case by (simp add: decoded_def)
qed


lemma div64_digit: "l \<le> 63 \<Longrightarrow> (k * 64 + l) div 64 = (k::nat)"
  by simp

lemma mod64_digit: "l \<le> 63 \<Longrightarrow> (k * 64 + l) mod 64 = (l::nat)"
  by simp

lemma enc2:
  assumes "2 \<le> a" "a \<le> 31" "l \<le> 63"
  shows "utf8_encode_char (a * 64 + l) = Inr [192 + a, 128 + l]"
proof -
  have "(a * 64 + l) div 64 = a" "(a * 64 + l) mod 64 = l" using assms(3) by simp_all
  moreover have "128 \<le> a * 64 + l" "a * 64 + l < 2048" using assms by linarith+
  ultimately show ?thesis by (simp add: utf8_encode_char_def)
qed

lemma enc3:
  assumes "a \<le> 15" "m \<le> 63" "l \<le> 63" "a = 0 \<Longrightarrow> 32 \<le> m" "a = 13 \<Longrightarrow> m \<le> 31"
  shows "utf8_encode_char (a * 4096 + m * 64 + l) = Inr [224 + a, 128 + m, 128 + l]"
proof -
  define c where "c = a * 4096 + m * 64 + l"
  have c64: "c = (a * 64 + m) * 64 + l" unfolding c_def by simp
  have d64: "c div 64 = a * 64 + m" by (simp only: c64 div64_digit[OF assms(3)])
  have m64: "c mod 64 = l" by (simp only: c64 mod64_digit[OF assms(3)])
  have dm: "(c div 64) mod 64 = m" by (simp only: d64 mod64_digit[OF assms(2)])
  have "c div 4096 = (c div 64) div 64" by (simp add: div_mult2_eq)
  then have d4096: "c div 4096 = a" by (simp only: d64 div64_digit[OF assms(2)])
  have lo: "2048 \<le> c"
  proof (cases "a = 0")
    case True
    then show ?thesis using assms(4) unfolding c_def by simp
  next
    case False
    then have "1 \<le> a" by simp
    then show ?thesis unfolding c_def by linarith
  qed
  have hi: "c < 65536" unfolding c_def using assms(1-3) by linarith
  have ns: "\<not> (55296 \<le> c \<and> c \<le> 57343)"
  proof (cases "a = 13")
    case True
    then have "c < 55296" using assms(5,3) unfolding c_def by simp
    then show ?thesis by simp
  next
    case False
    then have "a \<le> 12 \<or> 14 \<le> a" by linarith
    then show ?thesis
    proof
      assume "a \<le> 12"
      then have "c < 55296" unfolding c_def using assms(2,3) by linarith
      then show ?thesis by simp
    next
      assume "14 \<le> a"
      then have "57343 < c" unfolding c_def by linarith
      then show ?thesis by simp
    qed
  qed
  from lo hi ns d4096 dm m64 show ?thesis
    unfolding c_def[symmetric] by (simp add: utf8_encode_char_def)
qed

lemma enc4:
  assumes "a \<le> 4" "h \<le> 63" "m \<le> 63" "l \<le> 63" "a = 0 \<Longrightarrow> 16 \<le> h" "a = 4 \<Longrightarrow> h \<le> 15"
  shows "utf8_encode_char (a * 262144 + h * 4096 + m * 64 + l)
           = Inr [240 + a, 128 + h, 128 + m, 128 + l]"
proof -
  define c where "c = a * 262144 + h * 4096 + m * 64 + l"
  have c64: "c = ((a * 64 + h) * 64 + m) * 64 + l" unfolding c_def by simp
  have d64: "c div 64 = (a * 64 + h) * 64 + m" by (simp only: c64 div64_digit[OF assms(4)])
  have m64: "c mod 64 = l" by (simp only: c64 mod64_digit[OF assms(4)])
  have dm: "(c div 64) mod 64 = m" by (simp only: d64 mod64_digit[OF assms(3)])
  have "c div 4096 = (c div 64) div 64" by (simp add: div_mult2_eq)
  then have d4096: "c div 4096 = a * 64 + h" by (simp only: d64 div64_digit[OF assms(3)])
  have hm: "(c div 4096) mod 64 = h" by (simp only: d4096 mod64_digit[OF assms(2)])
  have "c div 262144 = (c div 4096) div 64" by (simp add: div_mult2_eq)
  then have dtop: "c div 262144 = a" by (simp only: d4096 div64_digit[OF assms(2)])
  have lo: "65536 \<le> c"
  proof (cases "a = 0")
    case True
    then show ?thesis using assms(5) unfolding c_def by simp
  next
    case False
    then have "1 \<le> a" by simp
    then show ?thesis unfolding c_def by linarith
  qed
  have hi: "c < 1114112"
  proof (cases "a = 4")
    case True
    then show ?thesis using assms(6,3,4) unfolding c_def by simp
  next
    case False
    then have "a \<le> 3" using assms(1) by linarith
    then show ?thesis unfolding c_def using assms(2-4) by linarith
  qed
  from lo hi dtop hm dm m64 show ?thesis
    unfolding c_def[symmetric] by (simp add: utf8_encode_char_def)
qed



lemma decoded_Inr: "decoded c r = Inr s \<Longrightarrow> \<exists>cs. r = Inr cs \<and> s = c # cs"
  by (cases r) (simp_all add: decoded_def)

lemma dstep1: "b0 < 128 \<Longrightarrow> utf8_decode (b0 # bs) = decoded b0 (utf8_decode bs)"
  by simp

lemma dstep2:
  "194 \<le> b0 \<Longrightarrow> b0 \<le> 223 \<Longrightarrow> utf8_decode (b0 # bs) =
     (case bs of
           b1 # r \<Rightarrow>
             if continuation b1
             then decoded ((b0 - 0xC0) * 64 + (b1 - 0x80)) (utf8_decode r)
             else Inl UnicodeDecodeError
         | _ \<Rightarrow> Inl UnicodeDecodeError)"
  by simp

lemma dstep3:
  "224 \<le> b0 \<Longrightarrow> b0 \<le> 239 \<Longrightarrow> utf8_decode (b0 # bs) =
        (case bs of
           b1 # b2 # r \<Rightarrow>
             if (if b0 = 0xE0 then 0xA0 else 0x80) \<le> b1
                \<and> b1 \<le> (if b0 = 0xED then 0x9F else 0xBF) \<and> continuation b2
             then decoded ((b0 - 0xE0) * 4096 + (b1 - 0x80) * 64 + (b2 - 0x80))
                    (utf8_decode r)
             else Inl UnicodeDecodeError
         | _ \<Rightarrow> Inl UnicodeDecodeError)"
  by simp

lemma dstep4:
  "240 \<le> b0 \<Longrightarrow> b0 \<le> 244 \<Longrightarrow> utf8_decode (b0 # bs) =
        (case bs of
           b1 # b2 # b3 # r \<Rightarrow>
             if (if b0 = 0xF0 then 0x90 else 0x80) \<le> b1
                \<and> b1 \<le> (if b0 = 0xF4 then 0x8F else 0xBF)
                \<and> continuation b2 \<and> continuation b3
             then decoded ((b0 - 0xF0) * 262144 + (b1 - 0x80) * 4096
                           + (b2 - 0x80) * 64 + (b3 - 0x80))
                    (utf8_decode r)
             else Inl UnicodeDecodeError
         | _ \<Rightarrow> Inl UnicodeDecodeError)"
  by simp

lemma dstep_bad: "128 \<le> b0 \<Longrightarrow> b0 < 194 \<or> 244 < b0 \<Longrightarrow> utf8_decode (b0 # bs) = Inl UnicodeDecodeError"
  by auto


lemma inv2:
  assumes "194 \<le> b0" "b0 \<le> 223" "utf8_decode (b0 # bs) = Inr s"
  shows "\<exists>b1 r. bs = b1 # r \<and> continuation b1
           \<and> decoded ((b0 - 192) * 64 + (b1 - 128)) (utf8_decode r) = Inr s"
proof (cases bs)
  case Nil
  with assms(3) show ?thesis unfolding dstep2[OF assms(1,2)] by simp
next
  case (Cons b1 r)
  with assms(3) show ?thesis unfolding dstep2[OF assms(1,2)]
    by (cases "continuation b1") simp_all
qed

lemma inv3:
  assumes "224 \<le> b0" "b0 \<le> 239" "utf8_decode (b0 # bs) = Inr s"
  shows "\<exists>b1 b2 r. bs = b1 # b2 # r
           \<and> (if b0 = 224 then 160 else 128) \<le> b1 \<and> b1 \<le> (if b0 = 237 then 159 else 191)
           \<and> continuation b2
           \<and> decoded ((b0 - 224) * 4096 + (b1 - 128) * 64 + (b2 - 128)) (utf8_decode r) = Inr s"
proof -
  from assms(3) have e: "(case bs of
           b1 # b2 # r \<Rightarrow>
             if (if b0 = 0xE0 then 0xA0 else 0x80) \<le> b1
                \<and> b1 \<le> (if b0 = 0xED then 0x9F else 0xBF) \<and> continuation b2
             then decoded ((b0 - 0xE0) * 4096 + (b1 - 0x80) * 64 + (b2 - 0x80))
                    (utf8_decode r)
             else Inl UnicodeDecodeError
         | _ \<Rightarrow> Inl UnicodeDecodeError) = Inr s"
    unfolding dstep3[OF assms(1,2)] .
  then obtain b1 b2 r where bs: "bs = b1 # b2 # r"
    by (cases bs; cases "tl bs") simp_all
  from e show ?thesis unfolding bs list.case
    by (cases "(if b0 = 0xE0 then 0xA0 else 0x80) \<le> b1
                \<and> b1 \<le> (if b0 = 0xED then 0x9F else 0xBF) \<and> continuation b2")
       (simp_all only: if_True if_False sum.distinct simp_thms list.inject ex_simps, blast)
qed


lemma inv4:
  assumes "240 \<le> b0" "b0 \<le> 244" "utf8_decode (b0 # bs) = Inr s"
  shows "\<exists>b1 b2 b3 r. bs = b1 # b2 # b3 # r
           \<and> (if b0 = 240 then 144 else 128) \<le> b1 \<and> b1 \<le> (if b0 = 244 then 143 else 191)
           \<and> continuation b2 \<and> continuation b3
           \<and> decoded ((b0 - 240) * 262144 + (b1 - 128) * 4096 + (b2 - 128) * 64 + (b3 - 128))
                 (utf8_decode r) = Inr s"
proof -
  from assms(3) have e: "(case bs of
           b1 # b2 # b3 # r \<Rightarrow>
             if (if b0 = 0xF0 then 0x90 else 0x80) \<le> b1
                \<and> b1 \<le> (if b0 = 0xF4 then 0x8F else 0xBF)
                \<and> continuation b2 \<and> continuation b3
             then decoded ((b0 - 0xF0) * 262144 + (b1 - 0x80) * 4096
                           + (b2 - 0x80) * 64 + (b3 - 0x80))
                    (utf8_decode r)
             else Inl UnicodeDecodeError
         | _ \<Rightarrow> Inl UnicodeDecodeError) = Inr s"
    unfolding dstep4[OF assms(1,2)] .
  then obtain b1 b2 b3 r where bs: "bs = b1 # b2 # b3 # r"
    by (cases bs; cases "tl bs"; cases "tl (tl bs)") simp_all
  from e show ?thesis unfolding bs list.case
    by (cases "(if b0 = 0xF0 then 0x90 else 0x80) \<le> b1
                \<and> b1 \<le> (if b0 = 0xF4 then 0x8F else 0xBF)
                \<and> continuation b2 \<and> continuation b3")
       (simp_all only: if_True if_False sum.distinct simp_thms list.inject ex_simps, blast)
qed

lemma continuation_digit: "continuation b \<Longrightarrow> b - 128 \<le> 63"
  unfolding continuation_def by linarith

lemma continuation_restore: "continuation b \<Longrightarrow> 128 + (b - 128) = b"
  unfolding continuation_def by linarith

lemma decode_step:
  assumes "utf8_decode (b0 # bs) = Inr s"
  shows "\<exists>c cs pre rest. b0 # bs = pre @ rest \<and> pre \<noteq> [] \<and> utf8_encode_char c = Inr pre
           \<and> s = c # cs \<and> utf8_decode rest = Inr cs"
proof -
  consider (one) "b0 < 128"
    | (two) "194 \<le> b0" "b0 \<le> 223"
    | (three) "224 \<le> b0" "b0 \<le> 239"
    | (four) "240 \<le> b0" "b0 \<le> 244"
    | (bad) "128 \<le> b0" "b0 < 194 \<or> 244 < b0"
    by linarith
  then show ?thesis
  proof cases
    case one
    with assms have "decoded b0 (utf8_decode bs) = Inr s" by (simp only: dstep1)
    then obtain cs where cs: "utf8_decode bs = Inr cs" "s = b0 # cs"
      using decoded_Inr by blast
    have "utf8_encode_char b0 = Inr [b0]" using one by (simp add: utf8_encode_char_def)
    with cs have "b0 # bs = [b0] @ bs \<and> [b0] \<noteq> [] \<and> utf8_encode_char b0 = Inr [b0]
           \<and> s = b0 # cs \<and> utf8_decode bs = Inr cs" by simp
    then show ?thesis by blast
  next
    case two
    from inv2[OF two assms] obtain b1 r where bs: "bs = b1 # r" and k: "continuation b1"
      and d: "decoded ((b0 - 192) * 64 + (b1 - 128)) (utf8_decode r) = Inr s"
      by blast
    from d obtain cs where cs: "utf8_decode r = Inr cs" "s = ((b0 - 192) * 64 + (b1 - 128)) # cs"
      using decoded_Inr by blast
    have "2 \<le> b0 - 192" "b0 - 192 \<le> 31" "b1 - 128 \<le> 63"
      using two continuation_digit[OF k] by linarith+
    from enc2[OF this] two continuation_restore[OF k]
    have "utf8_encode_char ((b0 - 192) * 64 + (b1 - 128)) = Inr [b0, b1]"
      by simp
    with cs bs have "b0 # bs = [b0, b1] @ r \<and> [b0, b1] \<noteq> []
           \<and> utf8_encode_char ((b0 - 192) * 64 + (b1 - 128)) = Inr [b0, b1]
           \<and> s = ((b0 - 192) * 64 + (b1 - 128)) # cs \<and> utf8_decode r = Inr cs" by simp
    then show ?thesis by blast
  next
    case three
    from inv3[OF three assms] obtain b1 b2 r where bs: "bs = b1 # b2 # r"
      and lo: "(if b0 = 224 then 160 else 128) \<le> b1"
      and hi: "b1 \<le> (if b0 = 237 then 159 else 191)"
      and k: "continuation b2"
      and d: "decoded ((b0 - 224) * 4096 + (b1 - 128) * 64 + (b2 - 128)) (utf8_decode r) = Inr s"
      by blast
    from d obtain cs where cs: "utf8_decode r = Inr cs"
        "s = ((b0 - 224) * 4096 + (b1 - 128) * 64 + (b2 - 128)) # cs"
      using decoded_Inr by blast
    have b1: "128 \<le> b1" "b1 \<le> 191" using lo hi by (simp_all split: if_splits)
    have "utf8_encode_char ((b0 - 224) * 4096 + (b1 - 128) * 64 + (b2 - 128))
            = Inr [224 + (b0 - 224), 128 + (b1 - 128), 128 + (b2 - 128)]"
    proof (rule enc3)
      show "b0 - 224 \<le> 15" using three by linarith
      show "b1 - 128 \<le> 63" using b1 by linarith
      show "b2 - 128 \<le> 63" using k by (rule continuation_digit)
      show "b0 - 224 = 0 \<Longrightarrow> 32 \<le> b1 - 128" using lo three by (simp split: if_splits)
      show "b0 - 224 = 13 \<Longrightarrow> b1 - 128 \<le> 31" using hi three by (simp split: if_splits)
    qed
    then have "utf8_encode_char ((b0 - 224) * 4096 + (b1 - 128) * 64 + (b2 - 128)) = Inr [b0, b1, b2]"
      using three b1 continuation_restore[OF k] by simp
    with cs bs have "b0 # bs = [b0, b1, b2] @ r \<and> [b0, b1, b2] \<noteq> []
           \<and> utf8_encode_char ((b0 - 224) * 4096 + (b1 - 128) * 64 + (b2 - 128)) = Inr [b0, b1, b2]
           \<and> s = ((b0 - 224) * 4096 + (b1 - 128) * 64 + (b2 - 128)) # cs
           \<and> utf8_decode r = Inr cs" by simp
    then show ?thesis by blast
  next
    case four
    from inv4[OF four assms] obtain b1 b2 b3 r where bs: "bs = b1 # b2 # b3 # r"
      and lo: "(if b0 = 240 then 144 else 128) \<le> b1"
      and hi: "b1 \<le> (if b0 = 244 then 143 else 191)"
      and k: "continuation b2" "continuation b3"
      and d: "decoded ((b0 - 240) * 262144 + (b1 - 128) * 4096 + (b2 - 128) * 64 + (b3 - 128))
                (utf8_decode r) = Inr s"
      by blast
    from d obtain cs where cs: "utf8_decode r = Inr cs"
        "s = ((b0 - 240) * 262144 + (b1 - 128) * 4096 + (b2 - 128) * 64 + (b3 - 128)) # cs"
      using decoded_Inr by blast
    have b1: "128 \<le> b1" "b1 \<le> 191" using lo hi by (simp_all split: if_splits)
    have "utf8_encode_char ((b0 - 240) * 262144 + (b1 - 128) * 4096 + (b2 - 128) * 64 + (b3 - 128))
            = Inr [240 + (b0 - 240), 128 + (b1 - 128), 128 + (b2 - 128), 128 + (b3 - 128)]"
    proof (rule enc4)
      show "b0 - 240 \<le> 4" using four by linarith
      show "b1 - 128 \<le> 63" using b1 by linarith
      show "b2 - 128 \<le> 63" using k(1) by (rule continuation_digit)
      show "b3 - 128 \<le> 63" using k(2) by (rule continuation_digit)
      show "b0 - 240 = 0 \<Longrightarrow> 16 \<le> b1 - 128" using lo four by (simp split: if_splits)
      show "b0 - 240 = 4 \<Longrightarrow> b1 - 128 \<le> 15" using hi four by (simp split: if_splits)
    qed
    then have "utf8_encode_char ((b0 - 240) * 262144 + (b1 - 128) * 4096 + (b2 - 128) * 64 + (b3 - 128))
            = Inr [b0, b1, b2, b3]"
      using four b1 continuation_restore[OF k(1)] continuation_restore[OF k(2)] by simp
    with cs bs have "b0 # bs = [b0, b1, b2, b3] @ r \<and> [b0, b1, b2, b3] \<noteq> []
           \<and> utf8_encode_char ((b0 - 240) * 262144 + (b1 - 128) * 4096 + (b2 - 128) * 64 + (b3 - 128))
               = Inr [b0, b1, b2, b3]
           \<and> s = ((b0 - 240) * 262144 + (b1 - 128) * 4096 + (b2 - 128) * 64 + (b3 - 128)) # cs
           \<and> utf8_decode r = Inr cs" by simp
    then show ?thesis by blast
  next
    case bad
    with assms show ?thesis by (simp only: dstep_bad sum.distinct)
  qed
qed

lemma utf8_encode_decode: "utf8_decode b = Inr s \<Longrightarrow> utf8_encode s = Inr b"
proof (induction b arbitrary: s rule: length_induct)
  case (1 b)
  show ?case
  proof (cases b)
    case Nil
    with "1.prems" show ?thesis by simp
  next
    case (Cons b0 bs)
    with "1.prems" decode_step[of b0 bs s] obtain c cs pre rest where
      st: "b = pre @ rest" "pre \<noteq> []" "utf8_encode_char c = Inr pre" "s = c # cs"
          "utf8_decode rest = Inr cs"
      by auto
    from st(1,2) have "length rest < length b" by (cases pre) simp_all
    with "1.IH" st(5) have "utf8_encode cs = Inr rest" by blast
    with st show ?thesis by simp
  qed
qed


section \<open>Properties of the provider\<close>

lemma get_fernet_cached: "g_fernet s = Some f \<Longrightarrow> get_fernet E s = (Inr f, s)"
  by (simp add: get_fernet_def)

lemma get_fernet_Inl:
  assumes "get_fernet E s = (Inl e, s')"
  shows "g_fernet s = None \<and> cryptography_installed E
         \<and> s' = s\<lparr>g_InvalidFernetToken := Library_InvalidToken\<rparr>"
  using assms
  by (auto simp: get_fernet_def empty_key_def Let_def
           split: option.splits if_splits sum.splits)

lemma get_fernet_Inr:
  assumes "get_fernet E s = (Inr f, s')"
  shows "g_fernet s' = Some f \<and> rows s' = rows s \<and> entropy s' = entropy s
         \<and> next_id s' = next_id s \<and> next_object s' = next_object s"
  using assms
  by (auto simp: get_fernet_def empty_key_def Let_def
           split: option.splits if_splits sum.splits)

lemma get_fernet_ignores_token_class:
  "fst (get_fernet E (s\<lparr>g_InvalidFernetToken := c\<rparr>)) = fst (get_fernet E s)"
  by (auto simp: get_fernet_def empty_key_def Let_def
           split: option.splits if_splits sum.splits)

lemma make_fernets_fails:
  assumes "p \<in> set parts"
      and "case utf8_encode p of Inl e \<Rightarrow> True | Inr b \<Rightarrow> isl (Fernet E b)"
  shows "isl (make_fernets E parts)"
  using assms
  by (induction parts) (auto split: sum.splits)

lemma utf8_encode_error: "utf8_encode s = Inl e \<Longrightarrow> e = UnicodeEncodeError"
  by (induction s) (auto simp: utf8_encode_char_def split: if_splits sum.splits)

lemma make_fernets_error_class:
  assumes "\<forall>b e. Fernet E b = Inl e \<longrightarrow> is_ValueError_or_TypeError e"
      and "make_fernets E parts = Inl e"
  shows "is_ValueError_or_TypeError e"
  using assms(2)
proof (induction parts)
  case Nil
  then show ?case by simp
next
  case (Cons p ps)
  show ?case
  proof (cases "utf8_encode p")
    case (Inl x)
    with Cons.prems utf8_encode_error[OF Inl] show ?thesis by simp
  next
    case (Inr b)
    show ?thesis
    proof (cases "Fernet E b")
      case (Inl x)
      with Cons.prems Inr assms(1) show ?thesis by auto
    next
      case k: (Inr k)
      with Cons.prems Inr Cons.IH show ?thesis by (auto split: sum.splits)
    qed
  qed
qed

text \<open>
  C1. The no-op provider is meant to return its argument from both \<^verbatim>\<open>encrypt\<close> and
  \<^verbatim>\<open>decrypt\<close>. The class defines \<^verbatim>\<open>encrypt\<close> and a method spelled \<^verbatim>\<open>decrpyt\<close>, both
  the identity; it defines no \<^verbatim>\<open>decrypt\<close>, so calling \<^verbatim>\<open>decrypt\<close> on it raises
  \<^verbatim>\<open>AttributeError\<close> for every byte string instead of returning it.
\<close>

theorem NullFernet_decrypt_missing:
  "fernet_call E NullFernet ''decrypt'' n (Inr b) = Inl (AttributeError ''decrypt'')
   \<and> fernet_call E NullFernet ''decrpyt'' n (Inr b) = Inr b
   \<and> fernet_call E NullFernet ''encrypt'' n (Inr b) = Inr b"
  by (simp add: fernet_call_def fernet_getattr_def NullFernet_methods_def)

text \<open>
  C3. With the library importable and no provider resolved yet: if building the keys from
  a non-empty configured value raises a \<^verbatim>\<open>ValueError\<close> or \<^verbatim>\<open>TypeError\<close> (the key
  material is structurally invalid), \<^verbatim>\<open>get_fernet\<close> raises an \<^verbatim>\<open>AirflowException\<close> and
  no provider, in particular no \<^verbatim>\<open>NullFernet\<close>, is cached; if the configured value is
  \<^verbatim>\<open>None\<close> or empty, it returns and caches a \<^verbatim>\<open>NullFernet\<close>, logs one warning and
  raises nothing.
\<close>

theorem get_fernet_invalid_or_empty_key:
  assumes "g_fernet s = None" and "cryptography_installed E"
  shows "(conf_get_FERNET_KEY E = Inr (Some k) \<and> k \<noteq> []
            \<and> make_fernets E (split_comma k) = Inl e \<and> is_ValueError_or_TypeError e
          \<longrightarrow> get_fernet E s
                = (Inl (AirflowException e), s\<lparr>g_InvalidFernetToken := Library_InvalidToken\<rparr>)
              \<and> g_fernet (snd (get_fernet E s)) = None)
       \<and> (conf_get_FERNET_KEY E = Inr None \<or> conf_get_FERNET_KEY E = Inr (Some [])
          \<longrightarrow> get_fernet E s
                = (Inr NullFernet,
                   s\<lparr>g_InvalidFernetToken := Library_InvalidToken,
                     logged := logged s
                       @ [Warning ''empty cryptography key - values will not be stored encrypted.''],
                     g_fernet := Some NullFernet\<rparr>))"
  using assms
  by (auto simp: get_fernet_def empty_key_def Let_def could_not_create_def)

theorem get_fernet_invalid_or_empty_key_witness:
  "get_fernet (example_env True (Inr (Some [97, 98, 99]))) initial_state
     = (Inl (AirflowException
               (ValueError ''Fernet key must be 32 url-safe base64-encoded bytes.'')),
        initial_state\<lparr>g_InvalidFernetToken := Library_InvalidToken\<rparr>)
   \<and> fst (get_fernet (example_env True (Inr (Some []))) initial_state) = Inr NullFernet"
proof -
  let ?bad = "example_env True (Inr (Some [97, 98, 99]))"
  let ?empty = "example_env True (Inr (Some []))"
  let ?e = "ValueError ''Fernet key must be 32 url-safe base64-encoded bytes.''"
  have h1: "g_fernet initial_state = None" by (simp add: initial_state_def)
  have h2: "cryptography_installed ?bad" "cryptography_installed ?empty"
    by (simp_all add: example_env_def)
  have h3: "conf_get_FERNET_KEY ?bad = Inr (Some [97, 98, 99]) \<and> [97, 98, 99] \<noteq> ([]::nat list)
            \<and> make_fernets ?bad (split_comma [97, 98, 99]) = Inl ?e
            \<and> is_ValueError_or_TypeError ?e"
    by (simp add: example_env_def example_Fernet_def utf8_encode_char_def)
  have h4: "conf_get_FERNET_KEY ?empty = Inr None \<or> conf_get_FERNET_KEY ?empty = Inr (Some [])"
    by (simp add: example_env_def)
  from get_fernet_invalid_or_empty_key[OF h1 h2(1), of "[97, 98, 99]" ?e] h3
  have a: "get_fernet ?bad initial_state
     = (Inl (AirflowException ?e), initial_state\<lparr>g_InvalidFernetToken := Library_InvalidToken\<rparr>)"
    by blast
  from get_fernet_invalid_or_empty_key[OF h1 h2(2), of "[]" ?e] h4
  have b: "fst (get_fernet ?empty initial_state) = Inr NullFernet"
    by simp
  from a b show ?thesis by simp
qed

text \<open>
  C9. A call of \<^verbatim>\<open>get_fernet\<close> that raises leaves \<^verbatim>\<open>_fernet\<close> unresolved: the provider
  was not resolved before, is not resolved after, the same call raises again, and under
  any other configuration the next call resolves exactly as it would have on the state
  before the failure. A call that returns a provider caches it: every later call returns
  that provider and changes nothing, whatever the configuration has become.
\<close>

theorem get_fernet_failure_not_cached:
  "(get_fernet E s = (Inl e, s') \<longrightarrow>
      g_fernet s = None \<and> g_fernet s' = None \<and> get_fernet E s' = (Inl e, s')
      \<and> (\<forall>E'. fst (get_fernet E' s') = fst (get_fernet E' s)))
   \<and> (get_fernet E s = (Inr f, s') \<longrightarrow>
      g_fernet s' = Some f \<and> (\<forall>E'. get_fernet E' s' = (Inr f, s')))"
proof (intro conjI impI)
  assume a: "get_fernet E s = (Inl e, s')"
  from get_fernet_Inl[OF a] have n: "g_fernet s = None"
    and s': "s' = s\<lparr>g_InvalidFernetToken := Library_InvalidToken\<rparr>" by simp_all
  show "g_fernet s = None" by (rule n)
  show "g_fernet s' = None" using n s' by simp
  show "\<forall>E'. fst (get_fernet E' s') = fst (get_fernet E' s)"
    unfolding s' by (simp add: get_fernet_ignores_token_class)
  show "get_fernet E s' = (Inl e, s')"
    using a n unfolding s'
    by (auto simp: get_fernet_def empty_key_def Let_def
           split: option.splits if_splits sum.splits)
next
  assume a: "get_fernet E s = (Inr f, s')"
  from get_fernet_Inr[OF a] show "g_fernet s' = Some f" by simp
  then show "\<forall>E'. get_fernet E' s' = (Inr f, s')" by (simp add: get_fernet_cached)
qed

theorem get_fernet_failure_not_cached_witness:
  "get_fernet (example_env True (Inr (Some [97, 98, 99])))
       (initial_state\<lparr>g_InvalidFernetToken := Library_InvalidToken\<rparr>)
     = (Inl (AirflowException
               (ValueError ''Fernet key must be 32 url-safe base64-encoded bytes.'')),
        initial_state\<lparr>g_InvalidFernetToken := Library_InvalidToken\<rparr>)
   \<and> fst (get_fernet (example_env True (Inr (Some [97, 98, 99, 100])))
            (initial_state\<lparr>g_InvalidFernetToken := Library_InvalidToken\<rparr>))
       = Inr (MultiFernet [[97, 98, 99, 100]])
   \<and> fst (get_fernet (example_env False (Inr None))
        (initial_state\<lparr>g_InvalidFernetToken := Library_InvalidToken,
                       g_fernet := Some (MultiFernet [[97, 98, 99, 100]])\<rparr>))
       = Inr (MultiFernet [[97, 98, 99, 100]])"
proof -
  let ?bad = "example_env True (Inr (Some [97, 98, 99]))"
  let ?good = "example_env True (Inr (Some [97, 98, 99, 100]))"
  let ?e = "AirflowException (ValueError ''Fernet key must be 32 url-safe base64-encoded bytes.'')"
  let ?s' = "initial_state\<lparr>g_InvalidFernetToken := Library_InvalidToken\<rparr>"
  let ?f = "MultiFernet [[97, 98, 99, 100::nat]]"
  let ?t = "initial_state\<lparr>g_InvalidFernetToken := Library_InvalidToken, g_fernet := Some ?f\<rparr>"
  have fail: "get_fernet ?bad initial_state = (Inl ?e, ?s')"
    by (simp add: get_fernet_def initial_state_def example_env_def example_Fernet_def
          utf8_encode_char_def could_not_create_def)
  have ok: "get_fernet ?good initial_state = (Inr ?f, ?t)"
    by (simp add: get_fernet_def initial_state_def example_env_def example_Fernet_def
          utf8_encode_char_def MultiFernet_new_def)
  from get_fernet_failure_not_cached[of ?bad initial_state ?e ?s' ?f] fail
  have a: "get_fernet ?bad ?s' = (Inl ?e, ?s')"
    and b: "\<forall>E'. fst (get_fernet E' ?s') = fst (get_fernet E' initial_state)"
    by blast+
  from spec[OF b, of ?good] have c: "fst (get_fernet ?good ?s') = Inr ?f"
    by (simp only: ok fst_conv)
  from get_fernet_failure_not_cached[of ?good initial_state ?e ?t ?f] ok
  have "\<forall>E'. get_fernet E' ?t = (Inr ?f, ?t)" by blast
  from spec[OF this, of "example_env False (Inr None)"]
  have d: "fst (get_fernet (example_env False (Inr None)) ?t) = Inr ?f"
    by (simp only: fst_conv)
  from a c d show ?thesis by (simp only: simp_thms)
qed


section \<open>Reading a variable\<close>


lemma decrypt_failed_result:
  "\<exists>msg. decrypt_failed self e s = (Inr None, s\<lparr>logged := logged s @ [Error msg (key self)]\<rparr>)"
  unfolding decrypt_failed_def by (cases "caught_as (g_InvalidFernetToken s) e") (simp_all only: if_True if_False, blast+)

text \<open>
  C2. On a row flagged as encrypted with a non-empty stored value, whenever the stored
  value cannot be decrypted, \<^verbatim>\<open>get_val\<close> returns \<^verbatim>\<open>None\<close> and logs one error naming the
  key; it raises nothing. The causes covered: \<^verbatim>\<open>get_fernet\<close> raises; no key material at
  read time, so the provider is the \<^verbatim>\<open>NullFernet\<close>; the stored text cannot be encoded;
  the library rejects the ciphertext; the decrypted bytes are not valid UTF-8.
\<close>

theorem get_val_decrypt_failure:
  assumes "raw_val self = Some val" and "val \<noteq> []" and "is_encrypted self = Some True"
      and "get_fernet E s = (Inl e, s1)
           \<or> get_fernet E s = (Inr NullFernet, s1)
           \<or> (\<exists>ks. get_fernet E s = (Inr (MultiFernet ks), s1)
                 \<and> (utf8_encode val = Inl e
                    \<or> (\<exists>b. utf8_encode val = Inr b
                          \<and> (MultiFernet_decrypt E ks b = Inl e
                             \<or> (\<exists>p. MultiFernet_decrypt E ks b = Inr p
                                   \<and> utf8_decode p = Inl e)))))"
  shows "\<exists>msg. get_val E self s
                 = (Inr None, s1\<lparr>logged := logged s1 @ [Error msg (key self)]\<rparr>)"
proof -
  have body: "get_val E self s =
      (case get_fernet E s of
               (Inl e, s1) \<Rightarrow> decrypt_failed self e s1
             | (Inr fernet, s1) \<Rightarrow>
                 (case fernet_call E fernet ''decrypt'' (entropy s1) (utf8_encode val) of
                    Inl e \<Rightarrow> decrypt_failed self e s1
                  | Inr plain \<Rightarrow>
                      (case utf8_decode plain of
                         Inl e \<Rightarrow> decrypt_failed self e s1
                       | Inr v \<Rightarrow> (Inr (Some v), s1))))"
    using assms(1-3) by (simp add: get_val_def)
  from assms(4) have "\<exists>e'. get_val E self s = decrypt_failed self e' s1"
    unfolding body
    by (auto simp: fernet_call_def fernet_getattr_def NullFernet_methods_def)
  then show ?thesis using decrypt_failed_result by metis
qed

theorem get_val_decrypt_failure_witness:
  "get_val (example_env True (Inr (Some [97, 98, 99, 100])))
       \<lparr>row_id = Some 1, key = [107], raw_val = Some [120, 120], is_encrypted = Some True\<rparr>
       initial_state
     = (Inr None,
        initial_state\<lparr>g_InvalidFernetToken := Library_InvalidToken,
                       g_fernet := Some (MultiFernet [[97, 98, 99, 100]]),
                       logged := [Error ''Can't decrypt _val for key={}, invalid token or value''
                                     [107]]\<rparr>)"
proof -
  let ?E = "example_env True (Inr (Some [97, 98, 99, 100]))"
  let ?row = "\<lparr>row_id = Some 1, key = [107], raw_val = Some [120, 120],
               is_encrypted = Some True\<rparr>"
  let ?s1 = "initial_state\<lparr>g_InvalidFernetToken := Library_InvalidToken,
                           g_fernet := Some (MultiFernet [[97, 98, 99, 100]])\<rparr>"
  have h1: "raw_val ?row = Some [120, 120]" "[120, 120] \<noteq> ([]::nat list)"
    "is_encrypted ?row = Some True" by simp_all
  have g: "get_fernet ?E initial_state = (Inr (MultiFernet [[97, 98, 99, 100]]), ?s1)"
    by (simp add: get_fernet_def initial_state_def example_env_def example_Fernet_def
          utf8_encode_char_def MultiFernet_new_def)
  have d: "utf8_encode [120, 120] = Inr [120, 120]
           \<and> MultiFernet_decrypt ?E [[97, 98, 99, 100]] [120, 120] = Inl InvalidToken"
    by (simp add: example_env_def example_decrypt_def utf8_encode_char_def)
  from g d have h4: "get_fernet ?E initial_state = (Inl InvalidToken, ?s1)
           \<or> get_fernet ?E initial_state = (Inr NullFernet, ?s1)
           \<or> (\<exists>ks. get_fernet ?E initial_state = (Inr (MultiFernet ks), ?s1)
                 \<and> (utf8_encode [120, 120] = Inl InvalidToken
                    \<or> (\<exists>b. utf8_encode [120, 120] = Inr b
                          \<and> (MultiFernet_decrypt ?E ks b = Inl InvalidToken
                             \<or> (\<exists>p. MultiFernet_decrypt ?E ks b = Inr p
                                   \<and> utf8_decode p = Inl InvalidToken)))))"
    by blast
  from get_val_decrypt_failure[OF h1 h4]
  obtain msg where m: "get_val ?E ?row initial_state
      = (Inr None, ?s1\<lparr>logged := logged ?s1 @ [Error msg (key ?row)]\<rparr>)" by blast
  have "get_val ?E ?row initial_state
      = (Inr None, ?s1\<lparr>logged := logged ?s1
           @ [Error ''Can't decrypt _val for key={}, invalid token or value'' (key ?row)]\<rparr>)"
    using g d
    by (simp add: get_val_def fernet_call_def fernet_getattr_def decrypt_failed_def)
  with m show ?thesis by (simp add: initial_state_def)
qed

text \<open>
  C5. When no row has the key, \<^verbatim>\<open>Variable.get\<close> returns the default if it is not
  \<^verbatim>\<open>None\<close> and raises \<^verbatim>\<open>KeyError\<close> otherwise; when a row has it, the result is that
  row's \<^verbatim>\<open>get_val()\<close>, passed through \<^verbatim>\<open>json.loads\<close> when deserialisation is asked for.
\<close>

theorem Variable_get_cases:
  "(query_first k s = None \<and> d \<noteq> PyNone \<longrightarrow> Variable_get E k d dj s = (Inr d, s))
   \<and> (query_first k s = None \<longrightarrow> Variable_get E k PyNone dj s = (Inl (KeyError k), s))
   \<and> (query_first k s = Some obj \<and> get_val E obj s = (Inr v, s1) \<longrightarrow>
        Variable_get E k d False s = (Inr (of_val v), s1)
        \<and> Variable_get E k d True s = (json_loads_val E v, s1))"
  by (simp add: Variable_get_def)

theorem Variable_get_cases_witness:
  "Variable_get (example_env False (Inr None)) [109] (PyStr [120]) False initial_state
     = (Inr (PyStr [120]), initial_state)
   \<and> Variable_get (example_env False (Inr None)) [109] PyNone False initial_state
     = (Inl (KeyError [109]), initial_state)
   \<and> Variable_get (example_env False (Inr None)) [107] PyNone False
        (initial_state\<lparr>rows := [\<lparr>row_id = Some 1, key = [107], raw_val = Some [34, 118, 34],
                                    is_encrypted = Some False\<rparr>]\<rparr>)
     = (Inr (PyStr [34, 118, 34]),
        initial_state\<lparr>rows := [\<lparr>row_id = Some 1, key = [107], raw_val = Some [34, 118, 34],
                                    is_encrypted = Some False\<rparr>]\<rparr>)
   \<and> Variable_get (example_env False (Inr None)) [107] PyNone True
        (initial_state\<lparr>rows := [\<lparr>row_id = Some 1, key = [107], raw_val = Some [34, 118, 34],
                                    is_encrypted = Some False\<rparr>]\<rparr>)
     = (Inr (PyStr [118]),
        initial_state\<lparr>rows := [\<lparr>row_id = Some 1, key = [107], raw_val = Some [34, 118, 34],
                                    is_encrypted = Some False\<rparr>]\<rparr>)"
proof -
  let ?E = "example_env False (Inr None)"
  let ?row = "\<lparr>row_id = Some 1, key = [107], raw_val = Some [34, 118, 34],
               is_encrypted = Some False\<rparr>"
  let ?s = "initial_state\<lparr>rows := [?row]\<rparr>"
  have q0: "query_first [109] initial_state = None"
    by (simp add: query_first_def initial_state_def)
  have q1: "query_first [107] ?s = Some ?row" by (simp add: query_first_def)
  have g: "get_val ?E ?row ?s = (Inr (Some [34, 118, 34]), ?s)" by (simp add: get_val_def)
  have j: "json_loads_val ?E (Some [34, 118, 34]) = Inr (PyStr [118])"
    by code_simp
  have a: "Variable_get ?E [109] (PyStr [120]) False initial_state
            = (Inr (PyStr [120]), initial_state)"
    using Variable_get_cases[of "[109]" initial_state "PyStr [120]" ?E False ?row "None" ?s] q0
    by simp
  have b: "Variable_get ?E [109] PyNone False initial_state = (Inl (KeyError [109]), initial_state)"
    using Variable_get_cases[of "[109]" initial_state "PyStr [120]" ?E False ?row "None" ?s] q0
    by simp
  have c: "Variable_get ?E [107] PyNone False ?s = (Inr (of_val (Some [34, 118, 34])), ?s)
           \<and> Variable_get ?E [107] PyNone True ?s = (json_loads_val ?E (Some [34, 118, 34]), ?s)"
    using Variable_get_cases[of "[107]" ?s PyNone ?E False ?row "Some [34, 118, 34]" ?s] q1 g
    by blast
  from a b c j show ?thesis by (simp add: of_val_def)
qed

text \<open>
  C10. When the row for the key exists, is flagged as encrypted and its decryption has
  failed, so that \<^verbatim>\<open>get_val()\<close> is \<^verbatim>\<open>None\<close>, \<^verbatim>\<open>Variable.get\<close> with JSON
  deserialisation raises the \<^verbatim>\<open>TypeError\<close> of \<^verbatim>\<open>json.loads(None)\<close> to the caller;
  without deserialisation it returns \<^verbatim>\<open>None\<close>.
\<close>

theorem get_deserialize_after_decrypt_failure:
  assumes "query_first k s = Some obj"
      and "raw_val obj = Some val" and "val \<noteq> []" and "is_encrypted obj = Some True"
      and "get_val E obj s = (Inr None, s1)"
  shows "Variable_get E k d True s = (Inl TypeError, s1)
         \<and> Variable_get E k d False s = (Inr PyNone, s1)"
  using assms by (simp add: Variable_get_def json_loads_val_def of_val_def)

theorem get_deserialize_after_decrypt_failure_witness:
  "fst (Variable_get (example_env True (Inr (Some [97, 98, 99, 100]))) [107] PyNone True
        (initial_state\<lparr>rows := [\<lparr>row_id = Some 1, key = [107], raw_val = Some [120, 120],
                                    is_encrypted = Some True\<rparr>]\<rparr>))
     = Inl TypeError
   \<and> fst (Variable_get (example_env True (Inr (Some [97, 98, 99, 100]))) [107] PyNone False
        (initial_state\<lparr>rows := [\<lparr>row_id = Some 1, key = [107], raw_val = Some [120, 120],
                                    is_encrypted = Some True\<rparr>]\<rparr>))
     = Inr PyNone"
proof -
  let ?E = "example_env True (Inr (Some [97, 98, 99, 100]))"
  let ?row = "\<lparr>row_id = Some 1, key = [107], raw_val = Some [120, 120],
               is_encrypted = Some True\<rparr>"
  let ?s = "initial_state\<lparr>rows := [?row]\<rparr>"
  have q: "query_first [107] ?s = Some ?row" by (simp add: query_first_def)
  have h: "raw_val ?row = Some [120, 120]" "[120, 120] \<noteq> ([]::nat list)"
    "is_encrypted ?row = Some True" by simp_all
  obtain s1 where g: "get_val ?E ?row ?s = (Inr None, s1)"
    by (simp add: get_val_def get_fernet_def initial_state_def example_env_def
          example_Fernet_def utf8_encode_char_def MultiFernet_new_def fernet_call_def
          fernet_getattr_def example_decrypt_def decrypt_failed_def)
  from get_deserialize_after_decrypt_failure[OF q h g, of PyNone]
  show ?thesis by simp
qed


section \<open>Writing a variable\<close>

lemma get_fernet_frame:
  assumes "get_fernet E s = (r, s')"
  shows "rows s' = rows s \<and> entropy s' = entropy s \<and> next_id s' = next_id s
         \<and> next_object s' = next_object s"
  using assms
  by (auto simp: get_fernet_def empty_key_def Let_def
           split: option.splits if_splits sum.splits)

lemma get_fernet_fst_rows: "fst (get_fernet E (s\<lparr>rows := x\<rparr>)) = fst (get_fernet E s)"
  by (auto simp: get_fernet_def empty_key_def Let_def
           split: option.splits if_splits sum.splits)

lemma get_fernet_fst_next_object:
  "fst (get_fernet E (s\<lparr>next_object := n\<rparr>)) = fst (get_fernet E s)"
  by (auto simp: get_fernet_def empty_key_def Let_def
           split: option.splits if_splits sum.splits)




lemma set_val_Inr:
  assumes "set_val E self val s = (Inr obj, s')" and "val \<noteq> []"
  shows "\<exists>f s1 b token t.
           get_fernet E s = (Inr f, s1) \<and> utf8_encode val = Inr b
           \<and> fernet_call E f ''encrypt'' (entropy s1) (Inr b) = Inr token
           \<and> utf8_decode token = Inr t
           \<and> obj = self\<lparr>raw_val := Some t, is_encrypted := Some (fernet_is_encrypted f)\<rparr>
           \<and> s' = s1\<lparr>entropy := Suc (entropy s1)\<rparr>"
proof -
  obtain r1 s1 where g: "get_fernet E s = (r1, s1)" by (cases "get_fernet E s")
  from assms g obtain f where f: "r1 = Inr f"
    by (cases r1) (auto simp: set_val_def)
  from assms g f obtain token where
    tk: "fernet_call E f ''encrypt'' (entropy s1) (utf8_encode val) = Inr token"
    by (cases "fernet_call E f ''encrypt'' (entropy s1) (utf8_encode val)")
       (auto simp: set_val_def)
  then obtain b where b: "utf8_encode val = Inr b"
    by (cases "utf8_encode val") (auto simp: fernet_call_def split: sum.splits)
  from assms g f tk obtain t where t: "utf8_decode token = Inr t"
    by (cases "utf8_decode token") (auto simp: set_val_def)
  from assms g f tk t have "obj = self\<lparr>raw_val := Some t, is_encrypted := Some (fernet_is_encrypted f)\<rparr>
     \<and> s' = s1\<lparr>entropy := Suc (entropy s1)\<rparr>"
    by (auto simp: set_val_def)
  with g f tk b t show ?thesis by auto
qed

lemma find_after_delete:
  "key r = k \<Longrightarrow> find (\<lambda>x. key x = k) (filter (\<lambda>x. key x \<noteq> k) xs @ [r]) = Some r"
  by (induction xs) simp_all

lemma filter_after_delete:
  "key r = k \<Longrightarrow> filter (\<lambda>x. key x = k) (filter (\<lambda>x. key x \<noteq> k) xs @ [r]) = [r]"
  by (induction xs) simp_all

lemma Variable_set_Inr:
  assumes "Variable_set E k v sj s = (Inr (), s')"
  shows "\<exists>sv r. (if sj then json_dumps E v else py_str E v) = Inr sv
     \<and> rows s' = filter (\<lambda>x. key x \<noteq> k) (rows s) @ [r] \<and> next_id s' = Suc (next_id s)
     \<and> key r = k \<and> row_id r = Some (next_id s)
     \<and> (sv = [] \<longrightarrow> raw_val r = None \<and> is_encrypted r = Some False)
     \<and> (sv \<noteq> [] \<longrightarrow>
          (\<exists>f b token t. fst (get_fernet E s) = Inr f \<and> g_fernet s' = Some f
             \<and> utf8_encode sv = Inr b
             \<and> fernet_call E f ''encrypt'' (entropy s) (Inr b) = Inr token
             \<and> utf8_decode token = Inr t
             \<and> raw_val r = Some t \<and> is_encrypted r = Some (fernet_is_encrypted f)))"
proof -
  let ?new = "\<lparr>row_id = None, key = k, raw_val = None, is_encrypted = None\<rparr>"
  let ?d = "query_delete k s"
  from assms obtain sv where sv: "(if sj then json_dumps E v else py_str E v) = Inr sv"
    by (cases "if sj then json_dumps E v else py_str E v") (auto simp: Variable_set_def)
  from assms sv obtain obj s2 where
    i: "set_val E ?new sv ?d = (Inr obj, s2)" and s': "s' = add_and_flush obj s2"
    by (auto simp: Variable_set_def Variable_init_def split: sum.splits prod.splits)
  show ?thesis
  proof (cases "sv = []")
    case True
    with i have "obj = ?new" "s2 = ?d" by (simp_all add: set_val_def)
    with s' sv True show ?thesis
      by (auto simp: add_and_flush_def query_delete_def inserted_def)
  next
    case False
    from set_val_Inr[OF i False] obtain f s1 b token t where
      g: "get_fernet E ?d = (Inr f, s1)" and b: "utf8_encode sv = Inr b"
      and tk: "fernet_call E f ''encrypt'' (entropy s1) (Inr b) = Inr token"
      and t: "utf8_decode token = Inr t"
      and obj: "obj = ?new\<lparr>raw_val := Some t, is_encrypted := Some (fernet_is_encrypted f)\<rparr>"
      and s2: "s2 = s1\<lparr>entropy := Suc (entropy s1)\<rparr>"
      by blast
    from get_fernet_frame[OF g] have fr: "rows s1 = rows ?d" "entropy s1 = entropy ?d"
      "next_id s1 = next_id ?d" by simp_all
    from g have ff: "fst (get_fernet E s) = Inr f"
      using get_fernet_fst_rows[where E = E and s = s and x = "filter (\<lambda>x. key x \<noteq> k) (rows s)"]
      by (simp add: query_delete_def)
    from get_fernet_Inr[OF g] have c: "g_fernet s1 = Some f" by simp
    let ?r = "inserted (next_id s) obj"
    have "rows s' = filter (\<lambda>x. key x \<noteq> k) (rows s) @ [?r]" "next_id s' = Suc (next_id s)"
      "g_fernet s' = Some f"
      using s' s2 fr c by (simp_all add: add_and_flush_def query_delete_def)
    moreover have "key ?r = k" "row_id ?r = Some (next_id s)" "raw_val ?r = Some t"
      "is_encrypted ?r = Some (fernet_is_encrypted f)"
      using obj by (simp_all add: inserted_def)
    moreover have "fernet_call E f ''encrypt'' (entropy s) (Inr b) = Inr token"
      using tk fr by (simp add: query_delete_def)
    ultimately show ?thesis using sv False ff b t by blast
  qed
qed

lemma utf8_decode_empty: "utf8_decode token = Inr [] \<Longrightarrow> token = []"
  using utf8_encode_decode[of token "[]"] by simp

lemma stored_row_reads_back:
  assumes "g_fernet s = Some f" and "sv \<noteq> []" and "utf8_encode sv = Inr b"
      and "fernet_call E f ''encrypt'' n (Inr b) = Inr token"
      and "utf8_decode token = Inr t"
      and "raw_val r = Some t" and "is_encrypted r = Some (fernet_is_encrypted f)"
      and "f = NullFernet \<or> fernet_law E"
  shows "get_val E r s = (Inr (Some sv), s)"
proof (cases f)
  case NullFernet
  with assms(4) have "token = b"
    by (simp add: fernet_call_def fernet_getattr_def NullFernet_methods_def)
  with assms(3,5) utf8_decode_encode[of sv b] have "t = sv" by simp
  with assms(6,7) NullFernet show ?thesis by (simp add: get_val_def)
next
  case (MultiFernet ks)
  with assms(8) have law: "fernet_law E" by simp
  from assms(4) MultiFernet have e: "MultiFernet_encrypt E ks n b = Inr token"
    by (simp add: fernet_call_def fernet_getattr_def)
  with law have tl: "length b < length token" and d: "MultiFernet_decrypt E ks token = Inr b"
    unfolding fernet_law_def by blast+
  from tl have "token \<noteq> []" by auto
  with assms(5) utf8_decode_empty have tne: "t \<noteq> []" by blast
  from assms(5) have et: "utf8_encode t = Inr token" by (rule utf8_encode_decode)
  from assms(3) have db: "utf8_decode b = Inr sv" by (rule utf8_decode_encode)
  have "fernet_call E f ''decrypt'' (entropy s) (utf8_encode t) = Inr b"
    using MultiFernet et d by (simp add: fernet_call_def fernet_getattr_def)
  with assms(1,6,7) MultiFernet tne db show ?thesis
    by (simp add: get_val_def get_fernet_cached)
qed

lemma unconfigured_provider:
  assumes "g_fernet s = None"
      and "\<not> cryptography_installed E \<or> conf_get_FERNET_KEY E = Inr None
           \<or> conf_get_FERNET_KEY E = Inr (Some [])"
  shows "fst (get_fernet E s) = Inr NullFernet"
  using assms by (auto simp: get_fernet_def Let_def)

lemma Variable_set_succeeds_unconfigured:
  assumes "fst (get_fernet E s) = Inr NullFernet" and "utf8_encode v = Inr b"
  shows "fst (Variable_set E k (PyStr v) False s) = Inr ()"
proof -
  let ?d = "query_delete k s"
  have "fst (get_fernet E ?d) = Inr NullFernet"
    using assms(1) get_fernet_fst_rows[where E = E and s = s]
    by (simp add: query_delete_def)
  then obtain s1 where g: "get_fernet E ?d = (Inr NullFernet, s1)"
    by (cases "get_fernet E ?d") simp
  from assms(2) have "utf8_decode b = Inr v" by (rule utf8_decode_encode)
  with g assms(2) show ?thesis
    by (simp add: Variable_set_def py_str_def Variable_init_def set_val_def fernet_call_def
          fernet_getattr_def NullFernet_methods_def)
qed

lemma Variable_set_succeeds_configured:
  assumes "fst (get_fernet E s) = Inr (MultiFernet ks)" and "v \<noteq> []"
      and "utf8_encode v = Inr b" and "MultiFernet_encrypt E ks (entropy s) b = Inr token"
      and "utf8_decode token = Inr t"
  shows "fst (Variable_set E k (PyStr v) False s) = Inr ()"
proof -
  let ?d = "query_delete k s"
  have "fst (get_fernet E ?d) = Inr (MultiFernet ks)"
    using assms(1) get_fernet_fst_rows[where E = E and s = s]
    by (simp add: query_delete_def)
  then obtain s1 where g: "get_fernet E ?d = (Inr (MultiFernet ks), s1)"
    by (cases "get_fernet E ?d") simp
  from get_fernet_frame[OF g] have "entropy s1 = entropy s" by (simp add: query_delete_def)
  with g assms(2-5) show ?thesis
    by (simp add: Variable_set_def py_str_def Variable_init_def set_val_def fernet_call_def
          fernet_getattr_def)
qed

lemmas store_defs =
  Variable_set_def Variable_get_def Variable_setdefault_def Variable_init_def set_val_def
  get_val_def get_fernet_def empty_key_def MultiFernet_new_def could_not_create_def
  fernet_call_def fernet_getattr_def NullFernet_methods_def decrypt_failed_def
  query_first_def query_delete_def add_and_flush_def inserted_def py_str_def
  json_loads_val_def of_val_def utf8_encode_char_def decoded_def continuation_def

lemmas example_defs =
  example_env_def example_Fernet_def example_encrypt_def example_decrypt_def
  initial_state_def

lemma example_fernet_law: "fernet_law (example_env installed fernet_key)"
  by (simp add: fernet_law_def example_defs)



text \<open>
  C7, as the claim states it, fails on the empty string: \<^verbatim>\<open>Variable.set(k, '')\<close> returns
  and leaves exactly one row for \<open>k\<close>, but \<^verbatim>\<open>set_val\<close> skips an empty value, so the row
  stores \<^verbatim>\<open>None\<close> and reading it back gives \<^verbatim>\<open>None\<close>, not the empty string that was
  written.
\<close>

theorem set_empty_value_counterexample:
  "fst (Variable_set (example_env False (Inr None)) [107] (PyStr []) False initial_state)
     = Inr ()
   \<and> map raw_val (rows (snd (Variable_set (example_env False (Inr None)) [107] (PyStr [])
                                False initial_state))) = [None]
   \<and> fst (Variable_get (example_env False (Inr None)) [107] PyNone False
            (snd (Variable_set (example_env False (Inr None)) [107] (PyStr []) False
                    initial_state))) = Inr PyNone
   \<and> fst (Variable_get (example_env False (Inr None)) [107] PyNone False
            (snd (Variable_set (example_env False (Inr None)) [107] (PyStr []) False
                    initial_state))) \<noteq> Inr (PyStr [])"
  by (simp add: store_defs example_defs)

text \<open>
  C7, amended. Whenever \<^verbatim>\<open>Variable.set(k, v)\<close> returns, every earlier row with key \<open>k\<close> is
  gone, the rows of other keys are untouched, and one new row for \<open>k\<close> has been inserted
  under a new primary key, so the table holds exactly one row for \<open>k\<close>, the one
  \<^verbatim>\<open>Variable.get\<close> finds. When the stored form of \<open>v\<close> (its \<^verbatim>\<open>str\<close> or JSON text) is not
  empty, that row reads back as the stored form (under the \<^verbatim>\<open>NullFernet\<close>, or a cipher
  that decrypts what it encrypted); when it is empty, the row stores \<^verbatim>\<open>None\<close>.
\<close>

theorem set_replaces_row:
  assumes "Variable_set E k v sj s = (Inr (), s')"
  shows "\<exists>sv r. (if sj then json_dumps E v else py_str E v) = Inr sv
     \<and> rows s' = filter (\<lambda>x. key x \<noteq> k) (rows s) @ [r]
     \<and> filter (\<lambda>x. key x = k) (rows s') = [r]
     \<and> query_first k s' = Some r \<and> key r = k \<and> row_id r = Some (next_id s)
     \<and> (sv = [] \<longrightarrow> raw_val r = None)
     \<and> (sv \<noteq> [] \<and> (g_fernet s' = Some NullFernet \<or> fernet_law E) \<longrightarrow>
          get_val E r s' = (Inr (Some sv), s'))"
proof -
  from Variable_set_Inr[OF assms] obtain sv r where
    sv: "(if sj then json_dumps E v else py_str E v) = Inr sv"
    and rows: "rows s' = filter (\<lambda>x. key x \<noteq> k) (rows s) @ [r]"
    and kr: "key r = k" and id: "row_id r = Some (next_id s)"
    and e: "sv = [] \<longrightarrow> raw_val r = None"
    and ne: "sv \<noteq> [] \<longrightarrow>
          (\<exists>f b token t. fst (get_fernet E s) = Inr f \<and> g_fernet s' = Some f
             \<and> utf8_encode sv = Inr b
             \<and> fernet_call E f ''encrypt'' (entropy s) (Inr b) = Inr token
             \<and> utf8_decode token = Inr t
             \<and> raw_val r = Some t \<and> is_encrypted r = Some (fernet_is_encrypted f))"
    by blast
  have q: "query_first k s' = Some r"
    unfolding query_first_def rows using kr by (rule find_after_delete)
  have one: "filter (\<lambda>x. key x = k) (rows s') = [r]"
    unfolding rows using kr by (rule filter_after_delete)
  have readback: "get_val E r s' = (Inr (Some sv), s')"
    if "sv \<noteq> []" and law: "g_fernet s' = Some NullFernet \<or> fernet_law E"
  proof -
    from ne that(1) obtain f b token t where
      c: "g_fernet s' = Some f" and b: "utf8_encode sv = Inr b"
      and tk: "fernet_call E f ''encrypt'' (entropy s) (Inr b) = Inr token"
      and t: "utf8_decode token = Inr t"
      and rv: "raw_val r = Some t" and ie: "is_encrypted r = Some (fernet_is_encrypted f)"
      by blast
    from law c have "f = NullFernet \<or> fernet_law E" by auto
    from stored_row_reads_back[OF c that(1) b tk t rv ie this] show ?thesis .
  qed
  from sv rows one q kr id e readback show ?thesis by blast
qed

theorem set_replaces_row_witness:
  "\<exists>r. rows (snd (Variable_set (example_env True (Inr (Some [97, 98, 99, 100]))) [107]
                    (PyStr [119]) False
                    (initial_state\<lparr>rows :=
                       [\<lparr>row_id = Some 1, key = [107], raw_val = Some [118],
                         is_encrypted = Some False\<rparr>,
                        \<lparr>row_id = Some 2, key = [108], raw_val = Some [118],
                         is_encrypted = Some False\<rparr>], next_id := 3\<rparr>)))
        = [\<lparr>row_id = Some 2, key = [108], raw_val = Some [118], is_encrypted = Some False\<rparr>, r]
      \<and> key r = [107] \<and> row_id r = Some 3
      \<and> fst (get_val (example_env True (Inr (Some [97, 98, 99, 100]))) r
            (snd (Variable_set (example_env True (Inr (Some [97, 98, 99, 100]))) [107]
                    (PyStr [119]) False
                    (initial_state\<lparr>rows :=
                       [\<lparr>row_id = Some 1, key = [107], raw_val = Some [118],
                         is_encrypted = Some False\<rparr>,
                        \<lparr>row_id = Some 2, key = [108], raw_val = Some [118],
                         is_encrypted = Some False\<rparr>], next_id := 3\<rparr>))))
          = Inr (Some [119])"
proof -
  let ?R = "example_env True (Inr (Some [97, 98, 99, 100]))"
  let ?old = "\<lparr>row_id = Some 1, key = [107], raw_val = Some [118], is_encrypted = Some False\<rparr>"
  let ?other = "\<lparr>row_id = Some 2, key = [108], raw_val = Some [118], is_encrypted = Some False\<rparr>"
  let ?s = "initial_state\<lparr>rows := [?old, ?other], next_id := 3\<rparr>"
  obtain s' where r1: "Variable_set ?R [107] (PyStr [119]) False ?s = (Inr (), s')"
    by (simp add: store_defs example_defs)
  from set_replaces_row[OF r1] obtain sv r where
    sv: "(if False then json_dumps ?R (PyStr [119]) else py_str ?R (PyStr [119])) = Inr sv"
    and rw: "rows s' = filter (\<lambda>x. key x \<noteq> [107]) (rows ?s) @ [r]"
    and kr: "key r = [107]" and ri: "row_id r = Some (next_id ?s)"
    and rb: "sv \<noteq> [] \<and> (g_fernet s' = Some NullFernet \<or> fernet_law ?R) \<longrightarrow>
          get_val ?R r s' = (Inr (Some sv), s')"
    by blast
  from sv have "sv = [119]" by (simp add: py_str_def)
  with rb example_fernet_law have "get_val ?R r s' = (Inr (Some [119]), s')" by simp
  moreover from rw have "rows s' = [?other, r]" by (simp add: initial_state_def)
  moreover from ri have "row_id r = Some 3" by (simp add: initial_state_def)
  ultimately show ?thesis unfolding r1 snd_conv using kr by (metis fst_conv)
qed

lemma set_then_get:
  assumes "Variable_set E k x sj s = (Inr (), s')"
      and "(if sj then json_dumps E x else py_str E x) = Inr sv" and "sv \<noteq> []"
      and "rows t = rows s'" and "g_fernet t = g_fernet s'"
      and "g_fernet s' = Some NullFernet \<or> fernet_law E"
  shows "Variable_get E k d sj t
           = ((if sj then json_loads_val E (Some sv) else Inr (PyStr sv)), t)"
proof -
  from Variable_set_Inr[OF assms(1)] assms(2,3) obtain r f b token v where
    rows: "rows s' = filter (\<lambda>x. key x \<noteq> k) (rows s) @ [r]" and kr: "key r = k"
    and c: "g_fernet s' = Some f" and b: "utf8_encode sv = Inr b"
    and tk: "fernet_call E f ''encrypt'' (entropy s) (Inr b) = Inr token"
    and v: "utf8_decode token = Inr v"
    and rv: "raw_val r = Some v" and ie: "is_encrypted r = Some (fernet_is_encrypted f)"
    by auto
  from assms(5) c have ct: "g_fernet t = Some f" by simp
  from assms(6) c have "f = NullFernet \<or> fernet_law E" by auto
  from stored_row_reads_back[OF ct assms(3) b tk v rv ie this]
  have g: "get_val E r t = (Inr (Some sv), t)" .
  have q: "query_first k t = Some r"
    unfolding query_first_def assms(4) rows using kr by (rule find_after_delete)
  from q g show ?thesis by (simp add: Variable_get_def of_val_def)
qed

text \<open>
  C8, as the claim states it, fails on a dict with an integer key, which \<^verbatim>\<open>json.dumps\<close>
  accepts: it writes the key \<^verbatim>\<open>1\<close> as the string \<^verbatim>\<open>"1"\<close>, so after
  \<^verbatim>\<open>Variable.set(k, {1: 'a'}, serialize_json=True)\<close> the call
  \<^verbatim>\<open>Variable.get(k, deserialize_json=True)\<close> returns \<^verbatim>\<open>{'1': 'a'}\<close>, not the value that
  was written.
\<close>

theorem json_int_key_counterexample:
  "fst (Variable_set (example_env False (Inr None)) [107]
          (PyOther (DDict [(DInt 1, DStr [97])])) True initial_state) = Inr ()
   \<and> fst (Variable_get (example_env False (Inr None)) [107] PyNone True
            (snd (Variable_set (example_env False (Inr None)) [107]
                    (PyOther (DDict [(DInt 1, DStr [97])])) True initial_state)))
       = Inr (PyOther (DDict [(DStr [49], DStr [97])]))
   \<and> fst (Variable_get (example_env False (Inr None)) [107] PyNone True
            (snd (Variable_set (example_env False (Inr None)) [107]
                    (PyOther (DDict [(DInt 1, DStr [97])])) True initial_state)))
       \<noteq> Inr (PyOther (DDict [(DInt 1, DStr [97])]))"
  by code_simp

text \<open>
  C8, amended. After \<^verbatim>\<open>Variable.set(k, x, serialize_json=True)\<close> has returned,
  \<^verbatim>\<open>Variable.get(k, deserialize_json=True)\<close> returns what \<^verbatim>\<open>json.loads\<close> makes of the text
  \<^verbatim>\<open>json.dumps(x)\<close>, because the stored text comes back unchanged through the provider
  (the \<^verbatim>\<open>NullFernet\<close>, or a cipher that decrypts what it encrypted); so it returns \<open>x\<close>
  itself for every \<open>x\<close> that \<^verbatim>\<open>json.loads(json.dumps(x))\<close> gives back. And when the text
  read from a row is not valid JSON, the error of \<^verbatim>\<open>json.loads\<close> reaches the caller.
\<close>

theorem json_round_trip:
  "(Variable_set E k x True s = (Inr (), s') \<and> json_dumps E x = Inr js \<and> js \<noteq> []
      \<and> (g_fernet s' = Some NullFernet \<or> fernet_law E)
    \<longrightarrow> Variable_get E k d True s' = (json_loads_val E (Some js), s')
        \<and> (json_loads E js = Inr j \<and> of_json j = x
            \<longrightarrow> Variable_get E k d True s' = (Inr x, s')))
   \<and> (query_first k s = Some obj \<and> get_val E obj s = (Inr (Some t), s1)
      \<and> json_loads E t = Inl e
    \<longrightarrow> Variable_get E k d True s = (Inl e, s1))"
proof (intro conjI impI)
  assume a: "Variable_set E k x True s = (Inr (), s') \<and> json_dumps E x = Inr js \<and> js \<noteq> []
      \<and> (g_fernet s' = Some NullFernet \<or> fernet_law E)"
  then have g: "Variable_get E k d True s' = (json_loads_val E (Some js), s')"
    using set_then_get[of E k x True s s' js s' d] by simp
  then show "Variable_get E k d True s' = (json_loads_val E (Some js), s')" .
  assume "json_loads E js = Inr j \<and> of_json j = x"
  with g show "Variable_get E k d True s' = (Inr x, s')"
    by (simp add: json_loads_val_def)
next
  assume "query_first k s = Some obj \<and> get_val E obj s = (Inr (Some t), s1)
      \<and> json_loads E t = Inl e"
  then show "Variable_get E k d True s = (Inl e, s1)"
    by (simp add: Variable_get_def json_loads_val_def)
qed

theorem json_round_trip_witness:
  "fst (Variable_get (example_env True (Inr (Some [97, 98, 99, 100]))) [107] PyNone True
         (snd (Variable_set (example_env True (Inr (Some [97, 98, 99, 100]))) [107]
                 (PyOther (DDict [(DStr [97], DInt 1)])) True initial_state)))
     = Inr (PyOther (DDict [(DStr [97], DInt 1)]))
   \<and> fst (Variable_get (example_env False (Inr None)) [107] PyNone True
         (initial_state\<lparr>rows := [\<lparr>row_id = Some 1, key = [107], raw_val = Some [123],
                                     is_encrypted = Some False\<rparr>]\<rparr>))
     = Inl JSONDecodeError"
proof -
  let ?R = "example_env True (Inr (Some [97, 98, 99, 100]))"
  let ?N = "example_env False (Inr None)"
  let ?x = "PyOther (DDict [(DStr [97], DInt 1)])"
  let ?js = "[123, 34, 97, 34, 58, 32, 49, 125] :: nat list"
  let ?row = "\<lparr>row_id = Some 1, key = [107], raw_val = Some [123], is_encrypted = Some False\<rparr>"
  let ?s = "initial_state\<lparr>rows := [?row]\<rparr>"
  have dj: "json_dumps ?R ?x = Inr ?js" by code_simp
  have lj: "json_loads ?R ?js = Inr (JsonOther (DDict [(DStr [97], DInt 1)]))" by code_simp
  have ok: "fst (Variable_set ?R [107] ?x True initial_state) = Inr ()" by code_simp
  then obtain s' where r1: "Variable_set ?R [107] ?x True initial_state = (Inr (), s')"
    by (cases "Variable_set ?R [107] ?x True initial_state") auto
  have h1: "Variable_set ?R [107] ?x True initial_state = (Inr (), s')
      \<and> json_dumps ?R ?x = Inr ?js \<and> ?js \<noteq> []
      \<and> (g_fernet s' = Some NullFernet \<or> fernet_law ?R)"
    using r1 dj example_fernet_law[of True "Inr (Some [97, 98, 99, 100])"] by simp
  have h1': "json_loads ?R ?js = Inr (JsonOther (DDict [(DStr [97], DInt 1)]))
      \<and> of_json (JsonOther (DDict [(DStr [97], DInt 1)])) = ?x"
    using lj by simp
  have bad: "json_loads ?N [123] = Inl JSONDecodeError" by code_simp
  have h2: "query_first [107] ?s = Some ?row \<and> get_val ?N ?row ?s = (Inr (Some [123]), ?s)
      \<and> json_loads ?N [123] = Inl JSONDecodeError"
    using bad by (simp add: query_first_def get_val_def)
  from json_round_trip[where E = ?R and k = "[107]" and x = ?x
         and s = initial_state and s' = s' and js = ?js
         and j = "JsonOther (DDict [(DStr [97], DInt 1)])" and d = PyNone] h1 h1'
  have a: "Variable_get ?R [107] PyNone True s' = (Inr ?x, s')"
    by blast
  from json_round_trip[where E = ?N and k = "[107]" and s = ?s and obj = ?row
         and t = "[123]" and ?s1.0 = ?s and e = JSONDecodeError and d = PyNone] h2
  have b: "Variable_get ?N [107] PyNone True ?s = (Inl JSONDecodeError, ?s)"
    by blast
  from a b show ?thesis unfolding r1 snd_conv by simp
qed


section \<open>\<^verbatim>\<open>Variable.setdefault\<close>\<close>

lemma query_first_next_object [simp]:
  "query_first k (s\<lparr>next_object := n\<rparr>) = query_first k s"
  by (simp add: query_first_def)









end
